theory Spec2Isabelle
  imports Main "HOL-Library.Sublist"
begin

section \<open>Python values\<close>

text \<open>
  A Python \<^verbatim>\<open>str\<close> is a sequence of Unicode code points, so text is a list of
  code-point numbers. \<open>str\<close> turns an (ASCII) literal into such a text.
\<close>

type_synonym pystr = "nat list"

definition str :: "string \<Rightarrow> pystr" where
  "str s = map of_char s"

text \<open>
  What \<^verbatim>\<open>Response.json()\<close> hands back: \<^verbatim>\<open>None\<close>, \<^verbatim>\<open>bool\<close>, \<^verbatim>\<open>int\<close>, \<^verbatim>\<open>float\<close>,
  \<^verbatim>\<open>str\<close>, \<^verbatim>\<open>list\<close> or \<^verbatim>\<open>dict\<close>. A float is kept as the numeral the server
  wrote; the program never looks inside a number. A dict is an association list, and
  a key is looked up with \<open>map_of\<close>.
\<close>

datatype json =
    JNull
  | JBool bool
  | JInt int
  | JFloat pystr
  | JStr pystr
  | JArr "json list"
  | JObj "(pystr \<times> json) list"

text \<open>
  Exceptions, each with the text \<^verbatim>\<open>str(e)\<close> gives. The first three come from the
  \<^verbatim>\<open>requests\<close> library, the others from the interpreter.
\<close>

datatype exn =
    RequestException pystr
  | HTTPError pystr
  | JSONDecodeError pystr
  | KeyError pystr
  | TypeError pystr
  | AttributeError pystr

fun str_exn :: "exn \<Rightarrow> pystr" where
  "str_exn (RequestException t) = t"
| "str_exn (HTTPError t) = t"
| "str_exn (JSONDecodeError t) = t"
| "str_exn (KeyError t) = t"
| "str_exn (TypeError t) = t"
| "str_exn (AttributeError t) = t"

fun type_name :: "json \<Rightarrow> pystr" where
  "type_name JNull = str ''NoneType''"
| "type_name (JBool _) = str ''bool''"
| "type_name (JInt _) = str ''int''"
| "type_name (JFloat _) = str ''float''"
| "type_name (JStr _) = str ''str''"
| "type_name (JArr _) = str ''list''"
| "type_name (JObj _) = str ''dict''"

definition quoted :: "pystr \<Rightarrow> pystr" where
  "quoted t = [39] @ t @ [39]"

text \<open>\<^verbatim>\<open>v[key]\<close> with a string key.\<close>

fun py_getitem :: "json \<Rightarrow> pystr \<Rightarrow> exn + json" where
  "py_getitem (JObj kv) key =
     (case map_of kv key of
        Some v \<Rightarrow> Inr v
      | None \<Rightarrow> Inl (KeyError (quoted key)))"
| "py_getitem (JArr xs) key =
     Inl (TypeError (str ''list indices must be integers or slices, not str''))"
| "py_getitem (JStr s) key =
     Inl (TypeError (str ''string indices must be integers, not '' @ quoted (str ''str'')))"
| "py_getitem v key =
     Inl (TypeError (quoted (type_name v) @ str '' object is not subscriptable''))"

text \<open>\<^verbatim>\<open>key in v\<close> with a string key.\<close>

fun py_contains :: "pystr \<Rightarrow> json \<Rightarrow> exn + bool" where
  "py_contains key (JObj kv) = Inr (map_of kv key \<noteq> None)"
| "py_contains key (JArr xs) = Inr (JStr key \<in> set xs)"
| "py_contains key (JStr s) = Inr (sublist key s)"
| "py_contains key v =
     Inl (TypeError (str ''argument of type '' @ quoted (type_name v) @ str '' is not iterable''))"

text \<open>\<^verbatim>\<open>v.get(key, default)\<close>: only a dict has the method.\<close>

fun py_get :: "json \<Rightarrow> pystr \<Rightarrow> json \<Rightarrow> exn + json" where
  "py_get (JObj kv) key dflt =
     (case map_of kv key of Some v \<Rightarrow> Inr v | None \<Rightarrow> Inr dflt)"
| "py_get v key dflt =
     Inl (AttributeError (quoted (type_name v) @ str '' object has no attribute ''
            @ quoted (str ''get'')))"

text \<open>
  The items a \<^verbatim>\<open>for\<close> loop visits: the elements of a list, the characters of a
  string, the keys of a dict.
\<close>

fun py_iter :: "json \<Rightarrow> exn + json list" where
  "py_iter (JArr xs) = Inr xs"
| "py_iter (JStr s) = Inr (map (\<lambda>c. JStr [c]) s)"
| "py_iter (JObj kv) = Inr (map (\<lambda>k. JStr k) (remdups (map fst kv)))"
| "py_iter v = Inl (TypeError (quoted (type_name v) @ str '' object is not iterable''))"

text \<open>\<^verbatim>\<open>s.find(sub)\<close>: the lowest index at which \<open>sub\<close> occurs, or \<open>-1\<close>.\<close>

fun find_from :: "pystr \<Rightarrow> pystr \<Rightarrow> int \<Rightarrow> int" where
  "find_from sub [] i = (if sub = [] then i else - 1)"
| "find_from sub (c # cs) i =
     (if prefix sub (c # cs) then i else find_from sub cs (i + 1))"

fun py_find :: "json \<Rightarrow> pystr \<Rightarrow> exn + int" where
  "py_find (JStr s) sub = Inr (find_from sub s 0)"
| "py_find v sub =
     Inl (AttributeError (quoted (type_name v) @ str '' object has no attribute ''
            @ quoted (str ''find'')))"


section \<open>The HTTP boundary\<close>

text \<open>
  A response as the adapter sees it: the status code, the text \<^verbatim>\<open>raise_for_status\<close>
  puts into its \<^verbatim>\<open>HTTPError\<close> for this response, and what \<^verbatim>\<open>.json()\<close> does with the
  body (decode it or raise). The network is a function from the request to either an
  exception or a response, so what the adapter transmits is exactly what it passes on.
\<close>

record response =
  status_code :: int
  status_line :: pystr
  json_of :: "exn + json"

type_synonym http_get = "pystr \<Rightarrow> exn + response"
type_synonym http_post = "pystr \<Rightarrow> json \<Rightarrow> exn + response"

text \<open>\<^verbatim>\<open>Response.raise_for_status()\<close>: raises on 4xx and 5xx, as the source notes.\<close>

definition raise_for_status :: "response \<Rightarrow> exn + unit" where
  "raise_for_status r =
     (if 400 \<le> status_code r \<and> status_code r < 600
      then Inl (HTTPError (status_line r)) else Inr ())"


section \<open>ollamaApi: the model-server adapter\<close>

subsection \<open>get_llm_models\<close>

text \<open>
  The loop over the entries. \<open>got\<close> is \<^verbatim>\<open>got_llm_models\<close>; when an entry raises, the
  loop stops and the names appended so far stay in the list.
\<close>

fun collect_models :: "json list \<Rightarrow> json list \<Rightarrow> json list \<times> exn option" where
  "collect_models [] got = (got, None)"
| "collect_models (model # rest) got =
     (case py_getitem model (str ''name'') of
        Inl e \<Rightarrow> (got, Some e)
      | Inr model_name \<Rightarrow>
          (case py_find model_name (str ''embed'') of
             Inl e \<Rightarrow> (got, Some e)
           | Inr i \<Rightarrow>
               collect_models rest (if i = - 1 then got @ [model_name] else got)))"

text \<open>The body of the \<^verbatim>\<open>try\<close>: the list as it stands, and the exception if one was raised.\<close>

definition get_llm_models_try :: "http_get \<Rightarrow> pystr \<Rightarrow> json list \<times> exn option" where
  "get_llm_models_try net url =
     (case net (url @ str ''/api/tags'') of
        Inl e \<Rightarrow> ([], Some e)
      | Inr response \<Rightarrow>
     (case raise_for_status response of
        Inl e \<Rightarrow> ([], Some e)
      | Inr _ \<Rightarrow>
     (case json_of response of
        Inl e \<Rightarrow> ([], Some e)
      | Inr models_data \<Rightarrow>
     (case py_get models_data (str ''models'') (JArr []) of
        Inl e \<Rightarrow> ([], Some e)
      | Inr ms \<Rightarrow>
     (case py_iter ms of
        Inl e \<Rightarrow> ([], Some e)
      | Inr entries \<Rightarrow> collect_models entries [])))))"

text \<open>
  Both exits return \<^verbatim>\<open>got_llm_models\<close>: the normal one and the handler of
  \<^verbatim>\<open>except Exception\<close> (which also prints the exception; printing is left out).
\<close>

definition get_llm_models :: "http_get \<Rightarrow> pystr \<Rightarrow> exn + json list" where
  "get_llm_models net url =
     (case get_llm_models_try net url of
        (got, None) \<Rightarrow> Inr got
      | (got, Some e) \<Rightarrow> Inr got)"

subsection \<open>chat_with_llm\<close>

definition msg_body :: "pystr \<Rightarrow> json list \<Rightarrow> json" where
  "msg_body model messages =
     JObj [(str ''model'', JStr model),
           (str ''messages'', JArr messages),
           (str ''stream'', JBool False)]"

text \<open>The request \<^verbatim>\<open>requests.post(chat_url, json=msg_body)\<close> sends: URL and JSON body.\<close>

definition chat_request :: "pystr \<Rightarrow> pystr \<Rightarrow> json list \<Rightarrow> pystr \<times> json" where
  "chat_request url model messages = (url @ str ''/api/chat'', msg_body model messages)"

definition error_in_response :: json where
  "error_in_response =
     JObj [(str ''role'', JStr (str ''error'')),
           (str ''content'', JStr (str ''**Error** in LLM response!''))]"

definition error_with_ollama :: "exn \<Rightarrow> json" where
  "error_with_ollama e =
     JObj [(str ''role'', JStr (str ''error'')),
           (str ''content'', JStr (str ''**Error** with Ollama: '' @ str_exn e))]"

text \<open>
  The body of the \<^verbatim>\<open>try\<close>: the new \<^verbatim>\<open>return_resp\<close>, or the exception raised. (The
  handler prints the exception as well; printing is left out.)
\<close>

definition chat_try :: "http_post \<Rightarrow> pystr \<Rightarrow> pystr \<Rightarrow> json list \<Rightarrow> exn + json" where
  "chat_try net url model messages =
     (case net (fst (chat_request url model messages)) (snd (chat_request url model messages)) of
        Inl e \<Rightarrow> Inl e
      | Inr response \<Rightarrow>
     (case json_of response of
        Inl e \<Rightarrow> Inl e
      | Inr respDict \<Rightarrow>
     (case py_contains (str ''message'') respDict of
        Inl e \<Rightarrow> Inl e
      | Inr has_message \<Rightarrow>
          if has_message then py_getitem respDict (str ''message'')
          else Inr error_in_response)))"

definition chat_response :: "http_post \<Rightarrow> pystr \<Rightarrow> pystr \<Rightarrow> json list \<Rightarrow> json" where
  "chat_response net url model messages =
     (case chat_try net url model messages of
        Inr return_resp \<Rightarrow> return_resp
      | Inl e \<Rightarrow> error_with_ollama e)"

text \<open>
  With a callback the result is scheduled for the main thread and the function returns
  \<^verbatim>\<open>None\<close>; without one the result is returned.
\<close>

datatype 'cb delivery = Scheduled 'cb json | Returned json

definition chat_with_llm ::
    "http_post \<Rightarrow> pystr \<Rightarrow> pystr \<Rightarrow> json list \<Rightarrow> 'cb option \<Rightarrow> exn + 'cb delivery" where
  "chat_with_llm net url model messages callback =
     (let return_resp = chat_response net url model messages
      in case callback of
           Some cb \<Rightarrow> Inr (Scheduled cb return_resp)
         | None \<Rightarrow> Inr (Returned return_resp))"

fun result_of :: "'cb delivery \<Rightarrow> json" where
  "result_of (Scheduled cb r) = r"
| "result_of (Returned r) = r"


section \<open>Regular expressions as the program uses them\<close>

text \<open>
  The two patterns of \<^verbatim>\<open>main.py\<close> use literals, \<^verbatim>\<open>.\<close>, alternation, \<^verbatim>\<open>?\<close> and the lazy
  \<^verbatim>\<open>*?\<close>. The matcher backtracks as Python's does: it takes the alternatives in
  order, \<^verbatim>\<open>?\<close> tries its operand first, \<^verbatim>\<open>*?\<close> tries to stop first. The continuation
  \<open>k\<close> is the rest of the pattern; \<open>None\<close> makes the matcher try its next choice.
  The result is the text left over after the match.
\<close>

datatype rx = Eps | Lit nat | Dot | Seq rx rx | Alt rx rx | Opt rx | LazyStar rx

record re_flags =
  ignorecase :: bool
  dotall :: bool

text \<open>
  The characters an ASCII literal of a pattern matches under \<^verbatim>\<open>re.IGNORECASE\<close>: both
  cases of a letter, and the four non-ASCII characters Python folds onto \<open>i\<close>, \<open>k\<close>
  and \<open>s\<close> (U+0130, U+0131, U+212A, U+017F).
\<close>

definition case_variants :: "nat \<Rightarrow> nat list" where
  "case_variants c =
     (if 65 \<le> c \<and> c \<le> 90 \<or> 97 \<le> c \<and> c \<le> 122 then
        (let lo = (if c \<le> 90 then c + 32 else c)
         in [lo, lo - 32] @
            (if lo = 105 then [304, 305] else if lo = 107 then [8490]
             else if lo = 115 then [383] else []))
      else [c])"

definition lit_matches :: "re_flags \<Rightarrow> nat \<Rightarrow> nat \<Rightarrow> bool" where
  "lit_matches fl c x = (if ignorecase fl then x \<in> set (case_variants c) else x = c)"

text \<open>\<^verbatim>\<open>.\<close> matches any character but the line feed, and that too under \<^verbatim>\<open>re.DOTALL\<close>.\<close>

definition dot_matches :: "re_flags \<Rightarrow> nat \<Rightarrow> bool" where
  "dot_matches fl x = (dotall fl \<or> x \<noteq> 10)"

fun rx_match :: "re_flags \<Rightarrow> rx \<Rightarrow> pystr \<Rightarrow> (pystr \<Rightarrow> pystr option) \<Rightarrow> pystr option" where
  "rx_match fl Eps s k = k s"
| "rx_match fl (Lit c) s k =
     (case s of [] \<Rightarrow> None | x # xs \<Rightarrow> if lit_matches fl c x then k xs else None)"
| "rx_match fl Dot s k =
     (case s of [] \<Rightarrow> None | x # xs \<Rightarrow> if dot_matches fl x then k xs else None)"
| "rx_match fl (Seq a b) s k = rx_match fl a s (\<lambda>r. rx_match fl b r k)"
| "rx_match fl (Alt a b) s k =
     (case rx_match fl a s k of Some r \<Rightarrow> Some r | None \<Rightarrow> rx_match fl b s k)"
| "rx_match fl (Opt a) s k =
     (case rx_match fl a s k of Some r \<Rightarrow> Some r | None \<Rightarrow> k s)"
| "rx_match fl (LazyStar a) s k =
     (case k s of
        Some r \<Rightarrow> Some r
      | None \<Rightarrow>
          rx_match fl a s
            (\<lambda>r. if length r < length s then rx_match fl (LazyStar a) r k else None))"

text \<open>A match that must consume something (what \<^verbatim>\<open>re\<close> asks for right after an empty match).\<close>

definition nonempty_match :: "re_flags \<Rightarrow> rx \<Rightarrow> pystr \<Rightarrow> pystr option" where
  "nonempty_match fl p s =
     rx_match fl p s (\<lambda>r. if length r < length s then Some r else None)"

text \<open>
  \<^verbatim>\<open>re.sub(pattern, repl, s)\<close> with a plain replacement text: the leftmost match at each
  position is replaced and the scan goes on behind it; where nothing matches the
  character is copied.
\<close>

function re_sub :: "re_flags \<Rightarrow> rx \<Rightarrow> pystr \<Rightarrow> pystr \<Rightarrow> pystr" where
  "re_sub fl p repl s =
     (case rx_match fl p s Some of
        Some r \<Rightarrow>
          if length r < length s then repl @ re_sub fl p repl r
          else repl @
            (case nonempty_match fl p s of
               Some r' \<Rightarrow>
                 if length r' < length s then repl @ re_sub fl p repl r'
                 else (case s of [] \<Rightarrow> [] | x # xs \<Rightarrow> x # re_sub fl p repl xs)
             | None \<Rightarrow> (case s of [] \<Rightarrow> [] | x # xs \<Rightarrow> x # re_sub fl p repl xs))
      | None \<Rightarrow> (case s of [] \<Rightarrow> [] | x # xs \<Rightarrow> x # re_sub fl p repl xs))"
  by pat_completeness auto
termination
  by (relation "measure (\<lambda>(fl, p, repl, s). length s)") auto

text \<open>\<^verbatim>\<open>re.sub\<close> on a value that need not be a string.\<close>

fun py_re_sub :: "re_flags \<Rightarrow> rx \<Rightarrow> pystr \<Rightarrow> json \<Rightarrow> exn + pystr" where
  "py_re_sub fl p repl (JStr s) = Inr (re_sub fl p repl s)"
| "py_re_sub fl p repl v =
     Inl (TypeError (str ''expected string or bytes-like object, got '' @ quoted (type_name v)))"

definition rx_str :: "string \<Rightarrow> rx" where
  "rx_str w = foldr (\<lambda>c r. Seq (Lit (of_char c)) r) w Eps"

fun rx_alts :: "rx \<Rightarrow> rx list \<Rightarrow> rx" where
  "rx_alts r [] = r"
| "rx_alts r (r' # rs) = Alt r (rx_alts r' rs)"


section \<open>The response sanitizer (main.py)\<close>

text \<open>\<^verbatim>\<open>re.sub(r'<THINK>.*?</THINK>', '', api_msg, flags=re.DOTALL | re.IGNORECASE)\<close>\<close>

definition think_pattern :: rx where
  "think_pattern = Seq (rx_str ''<THINK>'') (Seq (LazyStar Dot) (rx_str ''</THINK>''))"

definition think_flags :: re_flags where
  "think_flags = \<lparr>ignorecase = True, dotall = True\<rparr>"

definition strip_think :: "pystr \<Rightarrow> pystr" where
  "strip_think api_msg = re_sub think_flags think_pattern [] api_msg"

text \<open>
  \<^verbatim>\<open>re.sub(r'\[/?(?:color|b|i|u|s|sub|sup|font|font_context|font_family|font_features|size|ref|anchor|text_language).*?\]', '', label_text)\<close>
\<close>

definition tag_names :: "string list" where
  "tag_names = [''color'', ''b'', ''i'', ''u'', ''s'', ''sub'', ''sup'', ''font'',
     ''font_context'', ''font_family'', ''font_features'', ''size'', ''ref'', ''anchor'',
     ''text_language'']"

definition markup_pattern :: rx where
  "markup_pattern =
     Seq (rx_str ''['')
       (Seq (Opt (rx_str ''/''))
         (Seq (rx_alts (rx_str (hd tag_names)) (map rx_str (tl tag_names)))
           (Seq (LazyStar Dot) (rx_str '']''))))"

definition no_flags :: re_flags where
  "no_flags = \<lparr>ignorecase = False, dotall = False\<rparr>"

text \<open>The text \<^verbatim>\<open>label_copy\<close> puts on the clipboard.\<close>

definition label_copy :: "pystr \<Rightarrow> pystr" where
  "label_copy label_text = re_sub no_flags markup_pattern [] label_text"

subsection \<open>The two patterns read directly\<close>

text \<open>
  The functions below say without the matcher what the two patterns do; the lemmas of the
  last section show that the matcher computes them. \<open>lits_at fl w s\<close>: the text \<open>s\<close>
  starts with the literal \<open>w\<close>; \<open>lit_match\<close> gives the text behind it.
\<close>

fun lits_at :: "re_flags \<Rightarrow> string \<Rightarrow> pystr \<Rightarrow> bool" where
  "lits_at fl [] s = True"
| "lits_at fl (c # cs) [] = False"
| "lits_at fl (c # cs) (x # xs) = (lit_matches fl (of_char c) x \<and> lits_at fl cs xs)"

definition lit_match :: "re_flags \<Rightarrow> string \<Rightarrow> pystr \<Rightarrow> pystr option" where
  "lit_match fl w s = (if lits_at fl w s then Some (drop (length w) s) else None)"

text \<open>
  \<^verbatim>\<open>.*?\<close> followed by the literal \<open>w\<close>: the text behind the first occurrence of \<open>w\<close>
  that is reached over characters \<^verbatim>\<open>.\<close> matches.
\<close>

fun after_lit :: "re_flags \<Rightarrow> string \<Rightarrow> pystr \<Rightarrow> pystr option" where
  "after_lit fl w [] = lit_match fl w []"
| "after_lit fl w (x # xs) =
     (case lit_match fl w (x # xs) of
        Some r \<Rightarrow> Some r
      | None \<Rightarrow> if dot_matches fl x then after_lit fl w xs else None)"

text \<open>A match of the first pattern at the start of \<open>s\<close>: the text behind the block.\<close>

definition think_match :: "pystr \<Rightarrow> pystr option" where
  "think_match s =
     (case lit_match think_flags ''<THINK>'' s of
        Some r \<Rightarrow> after_lit think_flags ''</THINK>'' r
      | None \<Rightarrow> None)"

text \<open>
  The text holds a block: somewhere an opening delimiter, and behind it a closing one.
\<close>

fun think_block :: "pystr \<Rightarrow> bool" where
  "think_block [] = False"
| "think_block (x # xs) = (think_match (x # xs) \<noteq> None \<or> think_block xs)"

text \<open>
  A match of the second pattern at the start of \<open>s\<close>: an opening bracket, a slash or
  none, one of the tag names, and then anything up to the first closing bracket on the
  same line.
\<close>

definition tag_match :: "pystr \<Rightarrow> pystr option" where
  "tag_match s =
     (case lit_match no_flags ''['' s of
        None \<Rightarrow> None
      | Some r \<Rightarrow>
          (let r' = (case lit_match no_flags ''/'' r of Some r1 \<Rightarrow> r1 | None \<Rightarrow> r)
           in if \<exists>w \<in> set tag_names. lits_at no_flags w r'
              then after_lit no_flags '']'' r' else None))"


section \<open>The chat session (main.py)\<close>

text \<open>\<^verbatim>\<open>s.strip()\<close>: leading and trailing whitespace removed (the characters \<^verbatim>\<open>str.isspace\<close> accepts).\<close>

definition is_space :: "nat \<Rightarrow> bool" where
  "is_space c =
     (9 \<le> c \<and> c \<le> 13 \<or> 28 \<le> c \<and> c \<le> 32 \<or> c = 133 \<or> c = 160 \<or> c = 5760 \<or>
      8192 \<le> c \<and> c \<le> 8202 \<or> c = 8232 \<or> c = 8233 \<or> c = 8239 \<or> c = 8287 \<or> c = 12288)"

definition py_strip :: "pystr \<Rightarrow> pystr" where
  "py_strip s = rev (dropWhile is_space (rev (dropWhile is_space s)))"

text \<open>The slice \<^verbatim>\<open>xs[i:]\<close>: a negative start counts from the end and is clamped at the front.\<close>

definition py_slice_from :: "int \<Rightarrow> 'a list \<Rightarrow> 'a list" where
  "py_slice_from i xs =
     (let n = int (length xs);
          start = (if i < 0 then max (n + i) 0 else min i n)
      in drop (nat start) xs)"

text \<open>
  The widgets of the chat history, the arguments a worker thread was started with (its
  fourth argument is always \<^verbatim>\<open>self.ollama_callback\<close>), and the part of \<^verbatim>\<open>MyApp\<close> the
  send path reads and writes. \<open>threads\<close> holds the workers that were started and whose
  result has not been handed to the callback yet; \<open>toasts\<close> are the snackbars shown,
  with their \<^verbatim>\<open>is_error\<close> flag.
\<close>

datatype widget = Usr_label pystr | Spin_wait | Bot_document pystr

datatype callback = Ollama_callback

record thread =
  t_url :: pystr
  t_model :: pystr
  t_messages :: "json list"

record app =
  ollama_uri :: pystr
  selected_llm :: pystr
  messages :: "json list"
  is_llm_running :: bool
  chat_history :: "widget list"
  toasts :: "(pystr \<times> bool) list"
  threads :: "thread list"

text \<open>The state after \<^verbatim>\<open>build\<close> and \<^verbatim>\<open>on_start\<close>.\<close>

definition app_init :: app where
  "app_init =
     \<lparr>ollama_uri = str ''http://localhost:11434'', selected_llm = [], messages = [],
      is_llm_running = False, chat_history = [], toasts = [], threads = []\<rparr>"

definition show_toast_msg :: "app \<Rightarrow> pystr \<Rightarrow> bool \<Rightarrow> app" where
  "show_toast_msg s message is_error = s\<lparr>toasts := toasts s @ [(message, is_error)]\<rparr>"

definition add_usr_message :: "app \<Rightarrow> pystr \<Rightarrow> app" where
  "add_usr_message s msg_to_add = s\<lparr>chat_history := chat_history s @ [Usr_label msg_to_add]\<rparr>"

text \<open>The widget shows the message converted by \<^verbatim>\<open>m2r2\<close>; the model keeps the Markdown.\<close>

definition add_bot_message :: "app \<Rightarrow> pystr \<Rightarrow> app" where
  "add_bot_message s msg_to_add =
     s\<lparr>chat_history := chat_history s @ [Bot_document msg_to_add]\<rparr>"

definition user_entry :: "pystr \<Rightarrow> json" where
  "user_entry user_message =
     JObj [(str ''role'', JStr (str ''user'')), (str ''content'', JStr user_message)]"

text \<open>
  \<^verbatim>\<open>send_message\<close> from the append of the user message up to and including
  \<^verbatim>\<open>ollama_thread.start()\<close>: the state in which the request is dispatched.
\<close>

definition send_message_dispatch :: "app \<Rightarrow> pystr \<Rightarrow> app" where
  "send_message_dispatch s user_message =
     (let s1 = s\<lparr>messages := messages s @ [user_entry user_message]\<rparr>;
          s2 = add_usr_message s1 (str ''[b][color=#2196F3]You:[/color][/b] '' @ user_message);
          s3 = s2\<lparr>chat_history := chat_history s2 @ [Spin_wait]\<rparr>
      in s3\<lparr>threads := threads s3 @
              [\<lparr>t_url = ollama_uri s3, t_model = selected_llm s3,
                t_messages = py_slice_from (- 3) (messages s3)\<rparr>]\<rparr>)"

text \<open>The whole handler: the new state and the text left in the input widget.\<close>

definition send_message :: "app \<Rightarrow> pystr \<Rightarrow> app \<times> pystr" where
  "send_message s input_text =
     (if is_llm_running s then
        (show_toast_msg s (str ''Please wait for the current response'') True, input_text)
      else
        (let user_message = py_strip input_text
         in if user_message \<noteq> [] then
              ((send_message_dispatch s user_message)\<lparr>is_llm_running := True\<rparr>, [])
            else (show_toast_msg s (str ''Please type a message!'') True, input_text)))"

text \<open>
  \<^verbatim>\<open>ollama_callback\<close>: the new state, and the exception if a statement raised (the
  statements before it have taken effect).
\<close>

definition ollama_callback :: "app \<Rightarrow> json \<Rightarrow> app \<times> exn option" where
  "ollama_callback s llm_resp =
     (case py_getitem llm_resp (str ''role'') of
        Inl e \<Rightarrow> (s, Some e)
      | Inr role \<Rightarrow>
          (let s1 = (if role = JStr (str ''assistant'')
                     then s\<lparr>messages := messages s @ [llm_resp]\<rparr> else s)
           in case py_getitem llm_resp (str ''content'') of
                Inl e \<Rightarrow> (s1, Some e)
              | Inr content \<Rightarrow>
                  (case py_re_sub think_flags think_pattern [] content of
                     Inl e \<Rightarrow> (s1, Some e)
                   | Inr cleaned \<Rightarrow>
                       (let api_msg = str ''**Bot:** '' @ [10] @ cleaned;
                            s2 = s1\<lparr>chat_history := remove1 Spin_wait (chat_history s1)\<rparr>;
                            s3 = s2\<lparr>is_llm_running := False\<rparr>
                        in (add_bot_message s3 api_msg, None)))))"

text \<open>
  The worker thread number \<open>i\<close> finishes: it ran \<^verbatim>\<open>chat_with_llm\<close> on its arguments
  against the network \<open>net\<close>, and the scheduled callback runs on the main thread.
\<close>

definition deliver :: "http_post \<Rightarrow> nat \<Rightarrow> app \<Rightarrow> app \<times> exn option" where
  "deliver net i s =
     (if i < length (threads s) then
        (let t = threads s ! i;
             s' = s\<lparr>threads := take i (threads s) @ drop (Suc i) (threads s)\<rparr>
         in case chat_with_llm net (t_url t) (t_model t) (t_messages t) (Some Ollama_callback) of
              Inr (Scheduled cb llm_resp) \<Rightarrow> ollama_callback s' llm_resp
            | Inr (Returned r) \<Rightarrow> (s', None)
            | Inl e \<Rightarrow> (s', Some e))
      else (s, None))"

text \<open>
  One step of the session: a press on the send button, a worker finishing, or one of the
  other handlers (\<^verbatim>\<open>go_to_chatbot\<close>, \<^verbatim>\<open>llm_menu_callback\<close>, \<^verbatim>\<open>update_chatbot_welcome\<close>, the
  menus and dialogs), which write the server address, the selected model and widgets only.
\<close>

inductive step :: "app \<Rightarrow> app \<Rightarrow> bool" where
  send: "step s (fst (send_message s input_text))"
| finish: "i < length (threads s) \<Longrightarrow> step s (fst (deliver net i s))"
| other: "step s (s\<lparr>ollama_uri := u, selected_llm := m, chat_history := h, toasts := t\<rparr>)"

definition reachable :: "app \<Rightarrow> bool" where
  "reachable s = step\<^sup>*\<^sup>* app_init s"

text \<open>
  The invariant of the session: at most one worker is outstanding, and the guard is set
  while one is.
\<close>

definition one_in_flight :: "app \<Rightarrow> bool" where
  "one_in_flight s =
     (length (threads s) \<le> 1 \<and> (threads s \<noteq> [] \<longrightarrow> is_llm_running s))"


section \<open>Properties of the adapter\<close>

subsection \<open>Listing the models\<close>

lemma find_from_minus_one:
  "0 \<le> i \<Longrightarrow> (find_from sub s i = - 1) = (\<not> sublist sub s)"
proof (induction s arbitrary: i)
  case Nil
  then show ?case by auto
next
  case (Cons c cs)
  have "0 \<le> i + 1" using Cons.prems by simp
  from Cons.IH [OF this] Cons.prems show ?case
    by (auto simp: sublist_Cons_right)
qed

text \<open>Entries that are objects with a string under \<open>name\<close> are all visited and filtered.\<close>

lemma collect_models_well_formed:
  "list_all2 (\<lambda>m n. \<exists>fields. m = JObj fields \<and> map_of fields (str ''name'') = Some (JStr n))
     ms names \<Longrightarrow>
   collect_models (ms @ rest) got =
     collect_models rest (got @ map JStr (filter (\<lambda>n. \<not> sublist (str ''embed'') n) names))"
proof (induction ms names arbitrary: got rule: list_all2_induct)
  case Nil
  then show ?case by simp
next
  case (Cons m ms n names)
  then obtain fields where m: "m = JObj fields" "map_of fields (str ''name'') = Some (JStr n)"
    by blast
  show ?case
    using Cons.IH by (simp add: m find_from_minus_one)
qed

text \<open>Any other entry raises, and the loop ends there.\<close>

lemma collect_models_malformed:
  assumes "\<not> (\<exists>fields n. bad = JObj fields \<and> map_of fields (str ''name'') = Some (JStr n))"
  shows "\<exists>e. collect_models (bad # rest) got = (got, Some e)"
proof (cases "py_getitem bad (str ''name'')")
  case (Inl e)
  then show ?thesis by simp
next
  case (Inr v)
  then obtain fields where b: "bad = JObj fields" "map_of fields (str ''name'') = Some v"
    by (cases bad) (auto split: option.splits)
  with assms have "\<forall>n. v \<noteq> JStr n" by auto
  then obtain e where "py_find v (str ''embed'') = Inl e"
    by (cases v) auto
  with Inr show ?thesis by simp
qed

lemma get_llm_models_body:
  assumes "net (url @ str ''/api/tags'') = Inr r"
    and "\<not> (400 \<le> status_code r \<and> status_code r < 600)"
    and "json_of r = Inr (JObj kv)"
    and "map_of kv (str ''models'') = Some (JArr ms)"
  shows "get_llm_models net url = Inr (fst (collect_models ms []))"
proof -
  have "raise_for_status r = Inr ()"
    using assms(2) by (auto simp: raise_for_status_def)
  then have "get_llm_models_try net url = collect_models ms []"
    using assms(1,3,4) by (simp add: get_llm_models_try_def)
  then show ?thesis
    by (cases "collect_models ms []") (auto simp: get_llm_models_def split: option.splits)
qed

text \<open>
  C2. When the server answers the listing call (no 4xx/5xx status) with an object whose
  \<open>models\<close> array holds objects with a string under \<open>name\<close>, \<open>get_llm_models\<close>
  returns exactly the names that do not contain \<open>embed\<close>, in the server's order.
\<close>

theorem list_models_embed_filter:
  assumes "net (url @ str ''/api/tags'') = Inr r"
    and "\<not> (400 \<le> status_code r \<and> status_code r < 600)"
    and "json_of r = Inr (JObj kv)"
    and "map_of kv (str ''models'') = Some (JArr ms)"
    and "list_all2
           (\<lambda>m n. \<exists>fields. m = JObj fields \<and> map_of fields (str ''name'') = Some (JStr n))
           ms names"
  shows "get_llm_models net url =
           Inr (map JStr (filter (\<lambda>n. \<not> sublist (str ''embed'') n) names))"
proof -
  have "collect_models (ms @ []) [] =
      collect_models [] ([] @ map JStr (filter (\<lambda>n. \<not> sublist (str ''embed'') n) names))"
    using assms(5) by (rule collect_models_well_formed)
  then show ?thesis
    using get_llm_models_body [of net url r kv ms] assms(1-4) by simp
qed

text \<open>The list \<open>a\<close>, \<open>a-embed\<close>, \<open>embedder\<close>, \<open>b\<close> of the specification gives \<open>a\<close>, \<open>b\<close>.\<close>

theorem list_models_embed_filter_witness:
  "get_llm_models
     (\<lambda>u. Inr \<lparr>status_code = 200, status_line = [],
        json_of = Inr (JObj [(str ''models'',
          JArr [JObj [(str ''name'', JStr (str ''a''))],
                JObj [(str ''name'', JStr (str ''a-embed''))],
                JObj [(str ''name'', JStr (str ''embedder''))],
                JObj [(str ''name'', JStr (str ''b''))]])])\<rparr>)
     (str ''http://localhost:11434'')
   = Inr [JStr (str ''a''), JStr (str ''b'')]"
  using list_models_embed_filter
    [where names = "[str ''a'', str ''a-embed'', str ''embedder'', str ''b'']"
      and net = "(\<lambda>u. Inr \<lparr>status_code = 200, status_line = [],
        json_of = Inr (JObj [(str ''models'',
          JArr [JObj [(str ''name'', JStr (str ''a''))],
                JObj [(str ''name'', JStr (str ''a-embed''))],
                JObj [(str ''name'', JStr (str ''embedder''))],
                JObj [(str ''name'', JStr (str ''b''))]])])\<rparr>)"
      and url = "str ''http://localhost:11434''"
      and r = "\<lparr>status_code = 200, status_line = [],
        json_of = Inr (JObj [(str ''models'',
          JArr [JObj [(str ''name'', JStr (str ''a''))],
                JObj [(str ''name'', JStr (str ''a-embed''))],
                JObj [(str ''name'', JStr (str ''embedder''))],
                JObj [(str ''name'', JStr (str ''b''))]])])\<rparr>"
      and kv = "[(str ''models'',
          JArr [JObj [(str ''name'', JStr (str ''a''))],
                JObj [(str ''name'', JStr (str ''a-embed''))],
                JObj [(str ''name'', JStr (str ''embedder''))],
                JObj [(str ''name'', JStr (str ''b''))]])]"
      and ms = "[JObj [(str ''name'', JStr (str ''a''))],
                JObj [(str ''name'', JStr (str ''a-embed''))],
                JObj [(str ''name'', JStr (str ''embedder''))],
                JObj [(str ''name'', JStr (str ''b''))]]"]
  by (simp add: str_def sublist_Cons_right)

text \<open>
  C9, as the specification states it, does not hold: the entry without a name ends the
  loop, and the well-formed entry \<open>b\<close> behind it is not listed.
\<close>

theorem list_models_partial_counterexample:
  "get_llm_models
     (\<lambda>u. Inr \<lparr>status_code = 200, status_line = [],
        json_of = Inr (JObj [(str ''models'',
          JArr [JObj [(str ''name'', JStr (str ''a''))],
                JObj [],
                JObj [(str ''name'', JStr (str ''b''))]])])\<rparr>)
     (str ''http://localhost:11434'')
   = Inr [JStr (str ''a'')]"
  by (simp add: get_llm_models_def get_llm_models_try_def raise_for_status_def str_def)

text \<open>
  C9, amended. The listing holds the filtered names of the well-formed entries in front
  of the first malformed entry (one that is not an object with a string under
  \<open>name\<close>); that entry and everything behind it are left out, and nothing is raised.
\<close>

theorem list_models_stops_at_malformed:
  assumes "net (url @ str ''/api/tags'') = Inr r"
    and "\<not> (400 \<le> status_code r \<and> status_code r < 600)"
    and "json_of r = Inr (JObj kv)"
    and "map_of kv (str ''models'') = Some (JArr (good @ bad # rest))"
    and "list_all2
           (\<lambda>m n. \<exists>fields. m = JObj fields \<and> map_of fields (str ''name'') = Some (JStr n))
           good names"
    and "\<not> (\<exists>fields n. bad = JObj fields \<and> map_of fields (str ''name'') = Some (JStr n))"
  shows "get_llm_models net url =
           Inr (map JStr (filter (\<lambda>n. \<not> sublist (str ''embed'') n) names))"
proof -
  let ?kept = "map JStr (filter (\<lambda>n. \<not> sublist (str ''embed'') n) names)"
  have "collect_models (good @ bad # rest) [] = collect_models (bad # rest) ([] @ ?kept)"
    using assms(5) by (rule collect_models_well_formed)
  moreover obtain e where "collect_models (bad # rest) ?kept = (?kept, Some e)"
    using collect_models_malformed [OF assms(6)] by blast
  ultimately have "fst (collect_models (good @ bad # rest) []) = ?kept"
    by simp
  then show ?thesis
    using get_llm_models_body [of net url r kv "good @ bad # rest"] assms(1-4) by simp
qed

theorem list_models_stops_at_malformed_witness:
  "get_llm_models
     (\<lambda>u. Inr \<lparr>status_code = 200, status_line = [],
        json_of = Inr (JObj [(str ''models'',
          JArr [JObj [(str ''name'', JStr (str ''a''))],
                JObj [(str ''name'', JStr (str ''a-embed''))],
                JObj [(str ''id'', JInt 7)],
                JObj [(str ''name'', JStr (str ''b''))]])])\<rparr>)
     (str ''http://localhost:11434'')
   = Inr [JStr (str ''a'')]"
  using list_models_stops_at_malformed
    [where names = "[str ''a'', str ''a-embed'']"
      and net = "(\<lambda>u. Inr \<lparr>status_code = 200, status_line = [],
        json_of = Inr (JObj [(str ''models'',
          JArr [JObj [(str ''name'', JStr (str ''a''))],
                JObj [(str ''name'', JStr (str ''a-embed''))],
                JObj [(str ''id'', JInt 7)],
                JObj [(str ''name'', JStr (str ''b''))]])])\<rparr>)"
      and url = "str ''http://localhost:11434''"
      and r = "\<lparr>status_code = 200, status_line = [],
        json_of = Inr (JObj [(str ''models'',
          JArr [JObj [(str ''name'', JStr (str ''a''))],
                JObj [(str ''name'', JStr (str ''a-embed''))],
                JObj [(str ''id'', JInt 7)],
                JObj [(str ''name'', JStr (str ''b''))]])])\<rparr>"
      and kv = "[(str ''models'',
          JArr [JObj [(str ''name'', JStr (str ''a''))],
                JObj [(str ''name'', JStr (str ''a-embed''))],
                JObj [(str ''id'', JInt 7)],
                JObj [(str ''name'', JStr (str ''b''))]])]"
      and good = "[JObj [(str ''name'', JStr (str ''a''))],
                JObj [(str ''name'', JStr (str ''a-embed''))]]"
      and bad = "JObj [(str ''id'', JInt 7)]"
      and rest = "[JObj [(str ''name'', JStr (str ''b''))]]"]
  by (simp add: str_def sublist_Cons_right)

text \<open>
  C5, as the specification states it, does not hold for every status outside 2xx: only
  4xx and 5xx raise. A response with status 300 and a listing in its body is processed
  like a successful one, so the result is not what had been collected when the status
  was seen (nothing).
\<close>

theorem list_models_status_counterexample:
  "\<not> (200 \<le> (300::int) \<and> (300::int) < 300) \<and>
   get_llm_models
     (\<lambda>u. Inr \<lparr>status_code = 300, status_line = [],
        json_of = Inr (JObj [(str ''models'',
          JArr [JObj [(str ''name'', JStr (str ''a''))]])])\<rparr>)
     (str ''http://localhost:11434'')
   = Inr [JStr (str ''a'')]"
  by (simp add: get_llm_models_def get_llm_models_try_def raise_for_status_def str_def)

text \<open>
  C5, amended. \<open>get_llm_models\<close> always returns a list and never raises. On a
  transport failure, a 4xx or 5xx status, or a body that does not decode, the list is
  the one collected so far, which is empty. Every other status, also one outside 2xx
  such as 300, is processed like a success: the result is the one for the same response
  with status 200, so a well-formed listing gives its filtered names. The empty list is
  also the regular result when every name the server reports is an embedding model.
\<close>

theorem list_models_fail_soft:
  "(\<exists>names. get_llm_models net url = Inr names) \<and>
   ((\<exists>e. net (url @ str ''/api/tags'') = Inl e) \<or>
    (\<exists>r. net (url @ str ''/api/tags'') = Inr r \<and>
         (400 \<le> status_code r \<and> status_code r < 600 \<or> (\<exists>e. json_of r = Inl e)))
    \<longrightarrow> get_llm_models net url = Inr []) \<and>
   (\<forall>r. net (url @ str ''/api/tags'') = Inr r \<and>
        \<not> (400 \<le> status_code r \<and> status_code r < 600)
      \<longrightarrow> get_llm_models net url =
            get_llm_models (\<lambda>u. Inr (r\<lparr>status_code := 200\<rparr>)) url) \<and>
   (\<forall>r kv ms names.
      net (url @ str ''/api/tags'') = Inr r \<and>
      \<not> (400 \<le> status_code r \<and> status_code r < 600) \<and>
      json_of r = Inr (JObj kv) \<and> map_of kv (str ''models'') = Some (JArr ms) \<and>
      list_all2
        (\<lambda>m n. \<exists>fields. m = JObj fields \<and> map_of fields (str ''name'') = Some (JStr n))
        ms names
      \<longrightarrow> get_llm_models net url =
            Inr (map JStr (filter (\<lambda>n. \<not> sublist (str ''embed'') n) names))) \<and>
   (\<forall>r kv ms names.
      net (url @ str ''/api/tags'') = Inr r \<and>
      \<not> (400 \<le> status_code r \<and> status_code r < 600) \<and>
      json_of r = Inr (JObj kv) \<and> map_of kv (str ''models'') = Some (JArr ms) \<and>
      list_all2
        (\<lambda>m n. \<exists>fields. m = JObj fields \<and> map_of fields (str ''name'') = Some (JStr n))
        ms names \<and>
      (\<forall>n \<in> set names. sublist (str ''embed'') n)
      \<longrightarrow> get_llm_models net url = Inr [])"
proof -
  have raises_nothing: "\<exists>names. get_llm_models net url = Inr names"
    by (cases "get_llm_models_try net url")
       (auto simp: get_llm_models_def split: option.splits)
  have failure: "get_llm_models net url = Inr []"
    if "(\<exists>e. net (url @ str ''/api/tags'') = Inl e) \<or>
      (\<exists>r. net (url @ str ''/api/tags'') = Inr r \<and>
         (400 \<le> status_code r \<and> status_code r < 600 \<or> (\<exists>e. json_of r = Inl e)))"
  proof -
    from that have "fst (get_llm_models_try net url) = []"
      by (auto simp: get_llm_models_try_def raise_for_status_def split: sum.splits)
    then show ?thesis
      by (cases "get_llm_models_try net url")
         (auto simp: get_llm_models_def split: option.splits)
  qed
  have like_success: "get_llm_models net url =
      get_llm_models (\<lambda>u. Inr (r\<lparr>status_code := 200\<rparr>)) url"
    if "net (url @ str ''/api/tags'') = Inr r"
      "\<not> (400 \<le> status_code r \<and> status_code r < 600)" for r
  proof -
    have "raise_for_status r = Inr ()"
      using that(2) by (auto simp: raise_for_status_def)
    moreover have "raise_for_status (r\<lparr>status_code := 200\<rparr>) = Inr ()"
      by (simp add: raise_for_status_def)
    ultimately have "get_llm_models_try net url =
        get_llm_models_try (\<lambda>u. Inr (r\<lparr>status_code := 200\<rparr>)) url"
      using that(1) by (simp add: get_llm_models_try_def)
    then show ?thesis
      by (simp add: get_llm_models_def)
  qed
  have listing: "get_llm_models net url =
      Inr (map JStr (filter (\<lambda>n. \<not> sublist (str ''embed'') n) names))"
    if a: "net (url @ str ''/api/tags'') = Inr r \<and>
      \<not> (400 \<le> status_code r \<and> status_code r < 600) \<and>
      json_of r = Inr (JObj kv) \<and> map_of kv (str ''models'') = Some (JArr ms) \<and>
      list_all2
        (\<lambda>m n. \<exists>fields. m = JObj fields \<and> map_of fields (str ''name'') = Some (JStr n))
        ms names" for r kv ms names
  proof -
    have "collect_models (ms @ []) [] =
        collect_models [] ([] @ map JStr (filter (\<lambda>n. \<not> sublist (str ''embed'') n) names))"
      using a by (intro collect_models_well_formed) blast
    then show ?thesis
      using get_llm_models_body [of net url r kv ms] a by simp
  qed
  have empty: "get_llm_models net url = Inr []"
    if a: "net (url @ str ''/api/tags'') = Inr r \<and>
      \<not> (400 \<le> status_code r \<and> status_code r < 600) \<and>
      json_of r = Inr (JObj kv) \<and> map_of kv (str ''models'') = Some (JArr ms) \<and>
      list_all2
        (\<lambda>m n. \<exists>fields. m = JObj fields \<and> map_of fields (str ''name'') = Some (JStr n))
        ms names \<and>
      (\<forall>n \<in> set names. sublist (str ''embed'') n)" for r kv ms names
  proof -
    from a have "filter (\<lambda>n. \<not> sublist (str ''embed'') n) names = []"
      by (auto simp: filter_empty_conv)
    with listing [of r kv ms names] a show ?thesis
      by simp
  qed
  show ?thesis
    using raises_nothing failure like_success listing empty by blast
qed

text \<open>
  A refused connection, status 404, a body that is not JSON, status 300 with a listing,
  and a listing of embedding models only.
\<close>

theorem list_models_fail_soft_witness:
  "get_llm_models (\<lambda>u. Inl (RequestException (str ''Connection refused'')))
     (str ''http://localhost:11434'') = Inr [] \<and>
   get_llm_models
     (\<lambda>u. Inr \<lparr>status_code = 404, status_line = str ''404 Client Error'',
                json_of = Inr (JObj [(str ''models'',
                  JArr [JObj [(str ''name'', JStr (str ''a''))]])])\<rparr>)
     (str ''http://localhost:11434'') = Inr [] \<and>
   get_llm_models
     (\<lambda>u. Inr \<lparr>status_code = 200, status_line = [],
                json_of = Inl (JSONDecodeError (str ''Expecting value''))\<rparr>)
     (str ''http://localhost:11434'') = Inr [] \<and>
   get_llm_models
     (\<lambda>u. Inr \<lparr>status_code = 300, status_line = [],
                json_of = Inr (JObj [(str ''models'',
                  JArr [JObj [(str ''name'', JStr (str ''a''))],
                        JObj [(str ''name'', JStr (str ''embedder''))]])])\<rparr>)
     (str ''http://localhost:11434'') = Inr [JStr (str ''a'')] \<and>
   get_llm_models
     (\<lambda>u. Inr \<lparr>status_code = 300, status_line = [],
                json_of = Inr (JObj [(str ''models'',
                  JArr [JObj [(str ''name'', JStr (str ''a''))],
                        JObj [(str ''name'', JStr (str ''embedder''))]])])\<rparr>)
     (str ''http://localhost:11434'') =
   get_llm_models
     (\<lambda>u. Inr \<lparr>status_code = 200, status_line = [],
                json_of = Inr (JObj [(str ''models'',
                  JArr [JObj [(str ''name'', JStr (str ''a''))],
                        JObj [(str ''name'', JStr (str ''embedder''))]])])\<rparr>)
     (str ''http://localhost:11434'') \<and>
   get_llm_models
     (\<lambda>u. Inr \<lparr>status_code = 200, status_line = [],
                json_of = Inr (JObj [(str ''models'',
                  JArr [JObj [(str ''name'', JStr (str ''embedder''))]])])\<rparr>)
     (str ''http://localhost:11434'') = Inr []"
proof -
  let ?url = "str ''http://localhost:11434''"
  let ?refused = "\<lambda>u::pystr. (Inl (RequestException (str ''Connection refused'')) :: exn + response)"
  let ?r404 = "\<lparr>status_code = 404, status_line = str ''404 Client Error'',
                json_of = Inr (JObj [(str ''models'',
                  JArr [JObj [(str ''name'', JStr (str ''a''))]])])\<rparr>"
  let ?rbad = "\<lparr>status_code = 200, status_line = [],
                json_of = Inl (JSONDecodeError (str ''Expecting value''))\<rparr>"
  let ?ms = "[JObj [(str ''name'', JStr (str ''a''))],
              JObj [(str ''name'', JStr (str ''embedder''))]]"
  let ?r300 = "\<lparr>status_code = 300, status_line = [],
                json_of = Inr (JObj [(str ''models'', JArr ?ms)])\<rparr>"
  let ?r200 = "\<lparr>status_code = 200, status_line = [],
                json_of = Inr (JObj [(str ''models'', JArr ?ms)])\<rparr>"
  let ?me = "[JObj [(str ''name'', JStr (str ''embedder''))]]"
  let ?remb = "\<lparr>status_code = 200, status_line = [],
                json_of = Inr (JObj [(str ''models'', JArr ?me)])\<rparr>"
  have 1: "get_llm_models ?refused ?url = Inr []"
    using list_models_fail_soft [of ?refused ?url, THEN conjunct2, THEN conjunct1]
    by simp
  have 2: "get_llm_models (\<lambda>u. Inr ?r404) ?url = Inr []"
    using list_models_fail_soft [of "\<lambda>u. Inr ?r404" ?url, THEN conjunct2, THEN conjunct1]
    by simp
  have 3: "get_llm_models (\<lambda>u. Inr ?rbad) ?url = Inr []"
    using list_models_fail_soft [of "\<lambda>u. Inr ?rbad" ?url, THEN conjunct2, THEN conjunct1]
    by simp
  have 4: "get_llm_models (\<lambda>u. Inr ?r300) ?url = Inr [JStr (str ''a'')]"
    using list_models_fail_soft [of "\<lambda>u. Inr ?r300" ?url,
        THEN conjunct2, THEN conjunct2, THEN conjunct2, THEN conjunct1, rule_format,
        of ?r300 "[(str ''models'', JArr ?ms)]" ?ms "[str ''a'', str ''embedder'']"]
    by (simp add: str_def sublist_Cons_right)
  have 5: "get_llm_models (\<lambda>u. Inr ?r300) ?url = get_llm_models (\<lambda>u. Inr ?r200) ?url"
    using list_models_fail_soft [of "\<lambda>u. Inr ?r300" ?url,
        THEN conjunct2, THEN conjunct2, THEN conjunct1, rule_format, of ?r300]
    by simp
  have 6: "get_llm_models (\<lambda>u. Inr ?remb) ?url = Inr []"
    using list_models_fail_soft [of "\<lambda>u. Inr ?remb" ?url,
        THEN conjunct2, THEN conjunct2, THEN conjunct2, THEN conjunct2, rule_format,
        of ?remb "[(str ''models'', JArr ?me)]" ?me "[str ''embedder'']"]
    by (simp add: str_def sublist_Cons_right)
  show ?thesis
    using 1 2 3 4 5 6 by (intro conjI)
qed

subsection \<open>Sending a chat request\<close>

text \<open>Whatever the network does, \<open>chat_with_llm\<close> hands over a result and raises nothing.\<close>

lemma chat_with_llm_result:
  "chat_with_llm net url model msgs cb =
     Inr (case cb of
            Some c \<Rightarrow> Scheduled c (chat_response net url model msgs)
          | None \<Rightarrow> Returned (chat_response net url model msgs))"
  by (simp add: chat_with_llm_def split: option.splits)

lemma chat_with_llm_result_of:
  "\<exists>d. chat_with_llm net url model msgs cb = Inr d \<and>
       result_of d = chat_response net url model msgs"
  by (cases cb) (simp_all add: chat_with_llm_result)





text \<open>
  C4. When the POST raises, or the body does not decode, \<open>chat_with_llm\<close> raises nothing:
  it returns (or schedules for the callback) the result with role \<open>error\<close> and content
  \<open>**Error** with Ollama: \<close> followed by the text of the exception, so every detail of
  that text is in the content.
\<close>

theorem chat_transport_failure:
  assumes "net (url @ str ''/api/chat'') (msg_body model msgs) = Inl e \<or>
           (\<exists>r. net (url @ str ''/api/chat'') (msg_body model msgs) = Inr r \<and>
                json_of r = Inl e)"
  shows "chat_with_llm net url model msgs (None :: 'cb option) =
           Inr (Returned
             (JObj [(str ''role'', JStr (str ''error'')),
                    (str ''content'', JStr (str ''**Error** with Ollama: '' @ str_exn e))])) \<and>
         chat_with_llm net url model msgs (Some (c :: 'cb)) =
           Inr (Scheduled c
             (JObj [(str ''role'', JStr (str ''error'')),
                    (str ''content'', JStr (str ''**Error** with Ollama: '' @ str_exn e))])) \<and>
         (sublist detail (str_exn e) \<longrightarrow>
           sublist detail (str ''**Error** with Ollama: '' @ str_exn e))"
proof -
  have "chat_try net url model msgs = Inl e"
    using assms by (auto simp: chat_try_def chat_request_def)
  then have r: "chat_response net url model msgs =
      JObj [(str ''role'', JStr (str ''error'')),
            (str ''content'', JStr (str ''**Error** with Ollama: '' @ str_exn e))]"
    by (simp add: chat_response_def error_with_ollama_def)
  show ?thesis
    by (simp add: chat_with_llm_result r sublist_append)
qed

text \<open>A refused connection, and a body that is not JSON.\<close>

theorem chat_transport_failure_witness:
  "chat_with_llm (\<lambda>u b. Inl (RequestException (str ''refused'')))
     (str ''http://localhost:11434'') (str ''llama3'') [] (None :: callback option)
   = Inr (Returned
       (JObj [(str ''role'', JStr (str ''error'')),
              (str ''content'', JStr (str ''**Error** with Ollama: refused''))])) \<and>
   sublist (str ''refused'') (str ''**Error** with Ollama: '' @ str ''refused'') \<and>
   chat_with_llm
     (\<lambda>u b. Inr \<lparr>status_code = 200, status_line = [],
                  json_of = Inl (JSONDecodeError (str ''Expecting value''))\<rparr>)
     (str ''http://localhost:11434'') (str ''llama3'') [] (Some Ollama_callback)
   = Inr (Scheduled Ollama_callback
       (JObj [(str ''role'', JStr (str ''error'')),
              (str ''content'', JStr (str ''**Error** with Ollama: Expecting value''))]))"
proof -
  have a: "(\<lambda>u b. Inl (RequestException (str ''refused'')))
        (str ''http://localhost:11434'' @ str ''/api/chat'') (msg_body (str ''llama3'') [])
      = Inl (RequestException (str ''refused'')) \<or>
     (\<exists>r. (\<lambda>u b. Inl (RequestException (str ''refused'')))
        (str ''http://localhost:11434'' @ str ''/api/chat'') (msg_body (str ''llama3'') [])
      = Inr r \<and> json_of r = Inl (RequestException (str ''refused'')))"
    by simp
  have b: "(\<lambda>u b. Inr \<lparr>status_code = 200, status_line = [],
                  json_of = Inl (JSONDecodeError (str ''Expecting value''))\<rparr>)
        (str ''http://localhost:11434'' @ str ''/api/chat'') (msg_body (str ''llama3'') [])
      = Inl (JSONDecodeError (str ''Expecting value'')) \<or>
     (\<exists>r. (\<lambda>u b. Inr \<lparr>status_code = 200, status_line = [],
                  json_of = Inl (JSONDecodeError (str ''Expecting value''))\<rparr>)
        (str ''http://localhost:11434'' @ str ''/api/chat'') (msg_body (str ''llama3'') [])
      = Inr r \<and> json_of r = Inl (JSONDecodeError (str ''Expecting value'')))"
    by simp
  have lit: "str ''**Error** with Ollama: refused'' = str ''**Error** with Ollama: '' @ str ''refused''"
    "str ''**Error** with Ollama: Expecting value'' =
       str ''**Error** with Ollama: '' @ str ''Expecting value''"
    by (simp_all add: str_def)
  show ?thesis
    unfolding lit
    using a b
      chat_transport_failure
        [where net = "\<lambda>u b. Inl (RequestException (str ''refused''))"
           and url = "str ''http://localhost:11434''" and model = "str ''llama3''"
           and msgs = "[]" and e = "RequestException (str ''refused'')"
           and c = Ollama_callback and detail = "str ''refused''"]
      chat_transport_failure
        [where net = "\<lambda>u b. Inr \<lparr>status_code = 200, status_line = [],
                  json_of = Inl (JSONDecodeError (str ''Expecting value''))\<rparr>"
           and url = "str ''http://localhost:11434''" and model = "str ''llama3''"
           and msgs = "[]" and e = "JSONDecodeError (str ''Expecting value'')"
           and c = Ollama_callback and detail = "[]"]
    by simp
qed


section \<open>Properties of the chat session\<close>

lemma py_slice_from_last_three:
  "py_slice_from (- 3) xs = drop (length xs - 3) xs"
  by (simp add: py_slice_from_def Let_def max_def nat_diff_distrib')

lemma send_message_rejected:
  "is_llm_running s \<Longrightarrow>
   send_message s txt =
     (s\<lparr>toasts := toasts s @ [(str ''Please wait for the current response'', True)]\<rparr>, txt)"
  by (simp add: send_message_def show_toast_msg_def)

lemma send_message_accepted:
  "\<not> is_llm_running s \<Longrightarrow> py_strip txt \<noteq> [] \<Longrightarrow>
   send_message s txt = ((send_message_dispatch s (py_strip txt))\<lparr>is_llm_running := True\<rparr>, [])"
  by (simp add: send_message_def Let_def)

lemma send_message_empty:
  "\<not> is_llm_running s \<Longrightarrow> py_strip txt = [] \<Longrightarrow>
   send_message s txt = (s\<lparr>toasts := toasts s @ [(str ''Please type a message!'', True)]\<rparr>, txt)"
  by (simp add: send_message_def show_toast_msg_def)

lemma send_message_dispatch_fields:
  "messages (send_message_dispatch s um) = messages s @ [user_entry um]"
  "threads (send_message_dispatch s um) =
     threads s @ [\<lparr>t_url = ollama_uri s, t_model = selected_llm s,
                   t_messages = py_slice_from (- 3) (messages s @ [user_entry um])\<rparr>]"
  "is_llm_running (send_message_dispatch s um) = is_llm_running s"
  by (simp_all add: send_message_dispatch_def add_usr_message_def Let_def)

lemma ollama_callback_threads:
  "threads (fst (ollama_callback s r)) = threads s"
  by (simp add: ollama_callback_def add_bot_message_def Let_def split: sum.splits)

lemma ollama_callback_done:
  "ollama_callback s r = (s', None) \<Longrightarrow> \<not> is_llm_running s'"
  by (auto simp: ollama_callback_def add_bot_message_def Let_def split: sum.splits)


lemma deliver_callback:
  "i < length (threads s) \<Longrightarrow>
   deliver net i s =
     ollama_callback (s\<lparr>threads := take i (threads s) @ drop (Suc i) (threads s)\<rparr>)
       (chat_response net (t_url (threads s ! i)) (t_model (threads s ! i))
          (t_messages (threads s ! i)))"
  by (simp add: deliver_def Let_def chat_with_llm_result)


lemma step_one_in_flight:
  assumes "step s s'" and "one_in_flight s"
  shows "one_in_flight s'"
  using assms
proof (induction rule: step.induct)
  case (send s input_text)
  show ?case
  proof (cases "is_llm_running s")
    case True
    with send show ?thesis
      by (simp add: send_message_rejected one_in_flight_def)
  next
    case False
    with send have "threads s = []"
      by (auto simp: one_in_flight_def)
    with False show ?thesis
      by (cases "py_strip input_text = []")
         (simp_all add: send_message_empty send_message_accepted send_message_dispatch_fields
            one_in_flight_def)
  qed
next
  case (finish i s net)
  then have "length (threads s) = 1" "i = 0"
    by (auto simp: one_in_flight_def)
  then have "threads (fst (deliver net i s)) = []"
    using finish.hyps by (simp add: deliver_callback ollama_callback_threads)
  then show ?case
    by (simp add: one_in_flight_def)
next
  case (other s u m h t)
  then show ?case
    by (simp add: one_in_flight_def)
qed

lemma reachable_one_in_flight:
  "reachable s \<Longrightarrow> one_in_flight s"
  unfolding reachable_def
proof (induction rule: rtranclp_induct)
  case base
  show ?case by (simp add: one_in_flight_def app_init_def)
next
  case (step y z)
  then show ?case by (blast intro: step_one_in_flight)
qed

lemma reachable_init: "reachable app_init"
  by (simp add: reachable_def)

lemma reachable_step: "reachable s \<Longrightarrow> step s s' \<Longrightarrow> reachable s'"
  by (auto simp: reachable_def)

text \<open>\<open>chat_with_llm\<close> talks to the network through one request only.\<close>

lemma chat_with_llm_one_request:
  "chat_with_llm net url model msgs cb =
   chat_with_llm
     (\<lambda>u b. if (u, b) = chat_request url model msgs then net u b
             else Inl (RequestException []))
     url model msgs cb"
  by (simp add: chat_with_llm_def chat_response_def chat_try_def)

text \<open>
  C1. A send that is accepted starts one worker. The worker hands to the network (the
  function that stands for \<^verbatim>\<open>requests.post\<close>) the chat URL and a body whose \<open>messages\<close>
  are the last three entries of the transcript (which then ends with the new user
  message), in order, and the whole transcript when it has at most three: what the
  worker delivers is computed from the answer of the network to exactly this request,
  and from nothing else the network could be asked.
\<close>

theorem send_transmits_last_three:
  assumes "\<not> is_llm_running s" and "py_strip txt \<noteq> []"
  shows "\<exists>t. threads (fst (send_message s txt)) = threads s @ [t] \<and>
     t_messages t =
       drop (length (messages (fst (send_message s txt))) - 3)
         (messages (fst (send_message s txt))) \<and>
     (length (messages (fst (send_message s txt))) \<le> 3 \<longrightarrow>
        t_messages t = messages (fst (send_message s txt))) \<and>
     chat_request (t_url t) (t_model t) (t_messages t) =
       (ollama_uri s @ str ''/api/chat'',
        JObj [(str ''model'', JStr (selected_llm s)),
              (str ''messages'',
               JArr (drop (length (messages (fst (send_message s txt))) - 3)
                      (messages (fst (send_message s txt))))),
              (str ''stream'', JBool False)]) \<and>
     (\<forall>net cb. chat_with_llm net (t_url t) (t_model t) (t_messages t) cb =
        chat_with_llm
          (\<lambda>u b. if (u, b) = chat_request (t_url t) (t_model t) (t_messages t) then net u b
                  else Inl (RequestException []))
          (t_url t) (t_model t) (t_messages t) (cb :: callback option)) \<and>
     (\<forall>net cb. \<exists>d.
        chat_with_llm net (t_url t) (t_model t) (t_messages t) (cb :: callback option) = Inr d \<and>
        result_of d =
          (case net (ollama_uri s @ str ''/api/chat'')
                 (JObj [(str ''model'', JStr (selected_llm s)),
                        (str ''messages'',
                         JArr (drop (length (messages (fst (send_message s txt))) - 3)
                                (messages (fst (send_message s txt))))),
                        (str ''stream'', JBool False)]) of
             Inl e \<Rightarrow> error_with_ollama e
           | Inr response \<Rightarrow>
          (case json_of response of
             Inl e \<Rightarrow> error_with_ollama e
           | Inr respDict \<Rightarrow>
          (case py_contains (str ''message'') respDict of
             Inl e \<Rightarrow> error_with_ollama e
           | Inr has_message \<Rightarrow>
               if has_message then
                 (case py_getitem respDict (str ''message'') of
                    Inl e \<Rightarrow> error_with_ollama e
                  | Inr message \<Rightarrow> message)
               else error_in_response))))"
proof -
  let ?t = "\<lparr>t_url = ollama_uri s, t_model = selected_llm s,
             t_messages = py_slice_from (- 3) (messages s @ [user_entry (py_strip txt)])\<rparr>"
  let ?body = "JObj [(str ''model'', JStr (selected_llm s)),
              (str ''messages'',
               JArr (drop (length (messages (fst (send_message s txt))) - 3)
                      (messages (fst (send_message s txt))))),
              (str ''stream'', JBool False)]"
  have m: "messages (fst (send_message s txt)) = messages s @ [user_entry (py_strip txt)]"
    and t: "threads (fst (send_message s txt)) = threads s @ [?t]"
    using assms by (simp_all add: send_message_accepted send_message_dispatch_fields)
  have w: "t_messages ?t =
      drop (length (messages (fst (send_message s txt))) - 3)
        (messages (fst (send_message s txt)))"
    by (simp add: m py_slice_from_last_three)
  have req: "chat_request (t_url ?t) (t_model ?t) (t_messages ?t) =
       (ollama_uri s @ str ''/api/chat'', ?body)"
    unfolding w [symmetric] by (simp add: chat_request_def msg_body_def)
  have one: "\<forall>net cb. chat_with_llm net (t_url ?t) (t_model ?t) (t_messages ?t) cb =
        chat_with_llm
          (\<lambda>u b. if (u, b) = chat_request (t_url ?t) (t_model ?t) (t_messages ?t) then net u b
                  else Inl (RequestException []))
          (t_url ?t) (t_model ?t) (t_messages ?t) (cb :: callback option)"
    using chat_with_llm_one_request by blast
  have small: "length (messages (fst (send_message s txt))) \<le> 3 \<longrightarrow>
        t_messages ?t = messages (fst (send_message s txt))"
    unfolding w by simp
  have answer: "\<exists>d.
        chat_with_llm net (t_url ?t) (t_model ?t) (t_messages ?t) (cb :: callback option) = Inr d \<and>
        result_of d =
          (case net (ollama_uri s @ str ''/api/chat'') ?body of
             Inl e \<Rightarrow> error_with_ollama e
           | Inr response \<Rightarrow>
          (case json_of response of
             Inl e \<Rightarrow> error_with_ollama e
           | Inr respDict \<Rightarrow>
          (case py_contains (str ''message'') respDict of
             Inl e \<Rightarrow> error_with_ollama e
           | Inr has_message \<Rightarrow>
               if has_message then
                 (case py_getitem respDict (str ''message'') of
                    Inl e \<Rightarrow> error_with_ollama e
                  | Inr message \<Rightarrow> message)
               else error_in_response)))" for net cb
  proof -
    obtain d where d: "chat_with_llm net (t_url ?t) (t_model ?t) (t_messages ?t) cb = Inr d"
        "result_of d = chat_response net (t_url ?t) (t_model ?t) (t_messages ?t)"
      using chat_with_llm_result_of by blast
    have "chat_response net (t_url ?t) (t_model ?t) (t_messages ?t) =
          (case net (ollama_uri s @ str ''/api/chat'') ?body of
             Inl e \<Rightarrow> error_with_ollama e
           | Inr response \<Rightarrow>
          (case json_of response of
             Inl e \<Rightarrow> error_with_ollama e
           | Inr respDict \<Rightarrow>
          (case py_contains (str ''message'') respDict of
             Inl e \<Rightarrow> error_with_ollama e
           | Inr has_message \<Rightarrow>
               if has_message then
                 (case py_getitem respDict (str ''message'') of
                    Inl e \<Rightarrow> error_with_ollama e
                  | Inr message \<Rightarrow> message)
               else error_in_response)))"
      unfolding chat_response_def chat_try_def req fst_conv snd_conv
      by (simp split: sum.splits)
    with d show ?thesis by auto
  qed
  show ?thesis
    using t w small req one answer by blast
qed

text \<open>
  A transcript of three entries: the send makes it four. A server that sends back as
  \<open>message\<close> the body it was posted at the chat URL makes the worker deliver that body:
  model, the last three messages, and \<open>stream\<close> false.
\<close>

theorem send_transmits_last_three_witness:
  "\<exists>t. threads (fst (send_message
          (app_init\<lparr>messages := [user_entry (str ''one''),
             JObj [(str ''role'', JStr (str ''assistant'')), (str ''content'', JStr (str ''two''))],
             user_entry (str ''three'')]\<rparr>) (str '' four ''))) = [t] \<and>
     t_messages t =
       [JObj [(str ''role'', JStr (str ''assistant'')), (str ''content'', JStr (str ''two''))],
        user_entry (str ''three''), user_entry (str ''four'')] \<and>
     chat_with_llm
       (\<lambda>u b. if u = str ''http://localhost:11434/api/chat''
               then Inr \<lparr>status_code = 200, status_line = [],
                         json_of = Inr (JObj [(str ''message'', b)])\<rparr>
               else Inl (RequestException (str ''wrong URL'')))
       (t_url t) (t_model t) (t_messages t) (Some Ollama_callback) =
     Inr (Scheduled Ollama_callback
       (JObj [(str ''model'', JStr []),
              (str ''messages'',
               JArr [JObj [(str ''role'', JStr (str ''assistant'')),
                           (str ''content'', JStr (str ''two''))],
                     user_entry (str ''three''), user_entry (str ''four'')]),
              (str ''stream'', JBool False)]))"
proof -
  let ?s = "app_init\<lparr>messages := [user_entry (str ''one''),
             JObj [(str ''role'', JStr (str ''assistant'')), (str ''content'', JStr (str ''two''))],
             user_entry (str ''three'')]\<rparr>"
  let ?echo = "\<lambda>u b. if u = str ''http://localhost:11434/api/chat''
               then Inr \<lparr>status_code = 200, status_line = [],
                         json_of = Inr (JObj [(str ''message'', b)])\<rparr>
               else Inl (RequestException (str ''wrong URL''))"
  let ?three = "[JObj [(str ''role'', JStr (str ''assistant'')), (str ''content'', JStr (str ''two''))],
        user_entry (str ''three''), user_entry (str ''four'')]"
  let ?body = "JObj [(str ''model'', JStr []), (str ''messages'', JArr ?three),
                     (str ''stream'', JBool False)]"
  have strip: "py_strip (str '' four '') = str ''four''"
    by (simp add: py_strip_def is_space_def str_def)
  have a: "\<not> is_llm_running ?s" by (simp add: app_init_def)
  have b: "py_strip (str '' four '') \<noteq> []" unfolding strip by (simp add: str_def)
  have m: "messages (fst (send_message ?s (str '' four ''))) =
      [user_entry (str ''one''),
       JObj [(str ''role'', JStr (str ''assistant'')), (str ''content'', JStr (str ''two''))],
       user_entry (str ''three''), user_entry (str ''four'')]"
    using a b by (simp add: send_message_accepted send_message_dispatch_fields strip)
  have th: "threads ?s = []" and uri: "ollama_uri ?s = str ''http://localhost:11434''"
    and llm: "selected_llm ?s = []"
    by (simp_all add: app_init_def)
  have url: "str ''http://localhost:11434'' @ str ''/api/chat'' =
      str ''http://localhost:11434/api/chat''"
    by (simp add: str_def)
  from send_transmits_last_three [OF a b] obtain t where
    t: "threads (fst (send_message ?s (str '' four ''))) = threads ?s @ [t]"
    and w: "t_messages t =
       drop (length (messages (fst (send_message ?s (str '' four '')))) - 3)
         (messages (fst (send_message ?s (str '' four ''))))"
    and ans: "\<forall>net cb. \<exists>d.
        chat_with_llm net (t_url t) (t_model t) (t_messages t) (cb :: callback option) = Inr d \<and>
        result_of d =
          (case net (ollama_uri ?s @ str ''/api/chat'')
                 (JObj [(str ''model'', JStr (selected_llm ?s)),
                        (str ''messages'',
                         JArr (drop (length (messages (fst (send_message ?s (str '' four '')))) - 3)
                                (messages (fst (send_message ?s (str '' four '')))))),
                        (str ''stream'', JBool False)]) of
             Inl e \<Rightarrow> error_with_ollama e
           | Inr response \<Rightarrow>
          (case json_of response of
             Inl e \<Rightarrow> error_with_ollama e
           | Inr respDict \<Rightarrow>
          (case py_contains (str ''message'') respDict of
             Inl e \<Rightarrow> error_with_ollama e
           | Inr has_message \<Rightarrow>
               if has_message then
                 (case py_getitem respDict (str ''message'') of
                    Inl e \<Rightarrow> error_with_ollama e
                  | Inr message \<Rightarrow> message)
               else error_in_response)))"
    by blast
  have w': "t_messages t = ?three"
    unfolding w m by simp
  from ans [rule_format, of ?echo "Some Ollama_callback"] obtain d where
    d: "chat_with_llm ?echo (t_url t) (t_model t) (t_messages t) (Some Ollama_callback) = Inr d"
    and r: "result_of d = ?body"
    unfolding m uri llm url by auto
  from d have "\<exists>x. d = Scheduled Ollama_callback x"
    by (auto simp: chat_with_llm_def)
  with r have "d = Scheduled Ollama_callback ?body"
    by auto
  with d t w' th show ?thesis
    by simp
qed

text \<open>
  C6, as the specification states it, does not hold in one point: the guard is not set
  before the dispatch. In the state in which \<open>send_message\<close> has started the worker the
  guard is still unset; the next statement sets it.
\<close>

theorem guard_before_dispatch_counterexample:
  "threads (send_message_dispatch app_init (str ''hi'')) \<noteq> [] \<and>
   \<not> is_llm_running (send_message_dispatch app_init (str ''hi'')) \<and>
   fst (send_message app_init (str ''hi'')) =
     (send_message_dispatch app_init (str ''hi''))\<lparr>is_llm_running := True\<rparr>"
proof -
  have "py_strip (str ''hi'') = str ''hi''"
    by (simp add: py_strip_def is_space_def str_def)
  moreover have "str ''hi'' \<noteq> []" by (simp add: str_def)
  moreover have "\<not> is_llm_running app_init" by (simp add: app_init_def)
  ultimately show ?thesis
    by (simp add: send_message_accepted send_message_dispatch_fields app_init_def)
qed

text \<open>
  C6, amended. In every reachable state at most one chat request is outstanding, and the
  guard is set whenever one is. A send made while the guard is set only shows the
  message \<open>Please wait for the current response\<close>: it starts no worker and leaves the
  transcript and the input text as they are. An accepted send dispatches the request
  first and sets the guard right after it, in the same run of the handler: the state at
  the dispatch has one outstanding request and the guard unset. When the callback has
  run to its end, the guard is cleared and no request is outstanding.
\<close>

theorem at_most_one_in_flight:
  assumes "reachable s"
  shows "length (threads s) \<le> 1 \<and>
    (threads s \<noteq> [] \<longrightarrow> is_llm_running s) \<and>
    (is_llm_running s \<longrightarrow>
       send_message s txt =
         (s\<lparr>toasts := toasts s @
              [(str ''Please wait for the current response'', True)]\<rparr>, txt)) \<and>
    (\<not> is_llm_running s \<and> py_strip txt \<noteq> [] \<longrightarrow>
       length (threads (send_message_dispatch s (py_strip txt))) = 1 \<and>
       \<not> is_llm_running (send_message_dispatch s (py_strip txt)) \<and>
       fst (send_message s txt) =
         (send_message_dispatch s (py_strip txt))\<lparr>is_llm_running := True\<rparr>) \<and>
    (\<forall>s'. i < length (threads s) \<and> deliver net i s = (s', None) \<longrightarrow>
       \<not> is_llm_running s' \<and> threads s' = [])"
proof -
  have inv: "one_in_flight s"
    using assms by (rule reachable_one_in_flight)
  have "length (threads (send_message_dispatch s (py_strip txt))) = 1 \<and>
       \<not> is_llm_running (send_message_dispatch s (py_strip txt)) \<and>
       fst (send_message s txt) =
         (send_message_dispatch s (py_strip txt))\<lparr>is_llm_running := True\<rparr>"
    if "\<not> is_llm_running s" "py_strip txt \<noteq> []"
  proof -
    from inv that have "threads s = []"
      by (auto simp: one_in_flight_def)
    with that show ?thesis
      by (simp add: send_message_accepted send_message_dispatch_fields)
  qed
  moreover have "\<not> is_llm_running s' \<and> threads s' = []"
    if "i < length (threads s)" "deliver net i s = (s', None)" for s'
  proof -
    from inv that(1) have "length (threads s) = 1" "i = 0"
      by (auto simp: one_in_flight_def)
    moreover have "threads s' = threads (fst (deliver net i s))"
      using that(2) by simp
    ultimately have "threads s' = []"
      using that(1) by (simp add: deliver_callback ollama_callback_threads)
    moreover have "\<not> is_llm_running s'"
      using that by (simp add: deliver_callback ollama_callback_done)
    ultimately show ?thesis by simp
  qed
  ultimately show ?thesis
    using inv by (auto simp: one_in_flight_def send_message_rejected)
qed

lemma strip_hi: "py_strip (str ''hi'') = str ''hi''"
  by (simp add: py_strip_def is_space_def str_def)

lemma sent_hi:
  "fst (send_message app_init (str ''hi'')) =
     (send_message_dispatch app_init (str ''hi''))\<lparr>is_llm_running := True\<rparr>"
proof -
  have "py_strip (str ''hi'') \<noteq> []"
    unfolding strip_hi by (simp add: str_def)
  moreover have "\<not> is_llm_running app_init"
    by (simp add: app_init_def)
  ultimately show ?thesis
    by (simp add: send_message_accepted strip_hi)
qed

lemma reachable_sent_hi: "reachable (fst (send_message app_init (str ''hi'')))"
  by (rule reachable_step [OF reachable_init]) (rule step.send)

text \<open>A refused connection is delivered as an error result, and the callback runs to its end.\<close>

lemma deliver_refused:
  assumes "threads s = [t]"
  shows "deliver (\<lambda>u b. Inl (RequestException (str ''refused''))) 0 s =
    (add_bot_message
       (s\<lparr>threads := [], chat_history := remove1 Spin_wait (chat_history s),
          is_llm_running := False\<rparr>)
       (str ''**Bot:** '' @ [10] @
          strip_think (str ''**Error** with Ollama: '' @ str ''refused'')),
     None)"
proof -
  have "chat_response (\<lambda>u b. Inl (RequestException (str ''refused'')))
          (t_url t) (t_model t) (t_messages t) =
        error_with_ollama (RequestException (str ''refused''))"
    by (simp add: chat_response_def chat_try_def)
  moreover have "py_getitem (error_with_ollama e) (str ''role'') = Inr (JStr (str ''error''))"
    "py_getitem (error_with_ollama e) (str ''content'') =
       Inr (JStr (str ''**Error** with Ollama: '' @ str_exn e))" for e
    by (simp_all add: error_with_ollama_def str_def)
  moreover have "str ''error'' \<noteq> str ''assistant''"
    by (simp add: str_def)
  ultimately show ?thesis
    using assms
    by (simp add: deliver_callback ollama_callback_def Let_def strip_think_def)
qed

text \<open>
  The callback runs to its end for every result that has a role and a text as content;
  the two error results of \<open>chat_with_llm\<close> are of this kind.
\<close>

lemma ollama_callback_completes:
  assumes "py_getitem r (str ''role'') = Inr v"
    and "py_getitem r (str ''content'') = Inr (JStr c)"
  shows "snd (ollama_callback s r) = None \<and> \<not> is_llm_running (fst (ollama_callback s r))"
  using assms by (simp add: ollama_callback_def add_bot_message_def Let_def)

text \<open>
  A \<open>message\<close> object without \<open>content\<close> makes the callback raise after the append and
  before the guard is cleared.
\<close>

lemma ollama_callback_raises_example:
  "ollama_callback (fst (send_message app_init (str ''hi'')))
     (JObj [(str ''role'', JStr (str ''assistant''))]) =
   ((fst (send_message app_init (str ''hi'')))
      \<lparr>messages := [user_entry (str ''hi''), JObj [(str ''role'', JStr (str ''assistant''))]]\<rparr>,
    Some (KeyError (quoted (str ''content''))))"
proof -
  have "messages (fst (send_message app_init (str ''hi''))) = [user_entry (str ''hi'')]"
    unfolding sent_hi by (simp add: send_message_dispatch_fields app_init_def)
  moreover have "py_getitem (JObj [(str ''role'', JStr (str ''assistant''))]) (str ''content'') =
      Inl (KeyError (quoted (str ''content'')))"
    by (simp add: str_def)
  ultimately show ?thesis
    by (simp add: ollama_callback_def Let_def)
qed

theorem at_most_one_in_flight_witness:
  "length (threads (fst (send_message app_init (str ''hi'')))) = 1 \<and>
   is_llm_running (fst (send_message app_init (str ''hi''))) \<and>
   \<not> is_llm_running (send_message_dispatch app_init (str ''hi'')) \<and>
   send_message (fst (send_message app_init (str ''hi''))) (str ''again'') =
     ((fst (send_message app_init (str ''hi'')))
        \<lparr>toasts := [(str ''Please wait for the current response'', True)]\<rparr>,
      str ''again'') \<and>
   (\<exists>s'. deliver (\<lambda>u b. Inl (RequestException (str ''refused''))) 0
           (fst (send_message app_init (str ''hi''))) = (s', None) \<and>
         \<not> is_llm_running s' \<and> threads s' = [])"
proof -
  let ?s1 = "fst (send_message app_init (str ''hi''))"
  let ?net = "\<lambda>(u::pystr) (b::json). (Inl (RequestException (str ''refused'')) :: exn + response)"
  have run0: "\<not> is_llm_running app_init \<and> py_strip (str ''hi'') \<noteq> []"
    unfolding strip_hi by (simp add: app_init_def str_def)
  note init = at_most_one_in_flight [OF reachable_init, of "str ''hi''" 0 ?net]
  note sent = at_most_one_in_flight [OF reachable_sent_hi, of "str ''again''" 0 ?net]
  have accepted:
    "length (threads (send_message_dispatch app_init (str ''hi''))) = 1 \<and>
     \<not> is_llm_running (send_message_dispatch app_init (str ''hi'')) \<and>
     ?s1 = (send_message_dispatch app_init (str ''hi''))\<lparr>is_llm_running := True\<rparr>"
    using init [THEN conjunct2, THEN conjunct2, THEN conjunct2, THEN conjunct1, rule_format,
      OF run0]
    unfolding strip_hi .
  have run1: "is_llm_running ?s1"
    by (subst accepted [THEN conjunct2, THEN conjunct2]) simp
  have th1: "threads ?s1 = threads (send_message_dispatch app_init (str ''hi''))"
    by (subst accepted [THEN conjunct2, THEN conjunct2]) simp
  have len1: "length (threads ?s1) = 1"
    unfolding th1 using accepted by (rule conjunct1)
  have toasts1: "toasts ?s1 = []"
    by (subst accepted [THEN conjunct2, THEN conjunct2])
       (simp add: send_message_dispatch_def add_usr_message_def Let_def app_init_def)
  from len1 obtain t where t: "threads ?s1 = [t]"
    by (cases "threads ?s1") simp_all
  have rejected: "send_message ?s1 (str ''again'') =
         (?s1\<lparr>toasts := toasts ?s1 @
              [(str ''Please wait for the current response'', True)]\<rparr>, str ''again'')"
    using sent [THEN conjunct2, THEN conjunct2, THEN conjunct1, rule_format, OF run1] .
  have d: "deliver ?net 0 ?s1 =
      (fst (deliver ?net 0 ?s1), None)"
    unfolding deliver_refused [OF t] by simp
  have "0 < length (threads ?s1) \<and> deliver ?net 0 ?s1 = (fst (deliver ?net 0 ?s1), None)"
    using len1 d by simp
  then have cleared: "\<not> is_llm_running (fst (deliver ?net 0 ?s1)) \<and>
      threads (fst (deliver ?net 0 ?s1)) = []"
    by (rule sent [THEN conjunct2, THEN conjunct2, THEN conjunct2, THEN conjunct2, rule_format])
  have 1: "length (threads ?s1) = 1" by (rule len1)
  have 2: "is_llm_running ?s1" by (rule run1)
  have 3: "\<not> is_llm_running (send_message_dispatch app_init (str ''hi''))"
    using accepted by (elim conjE)
  have 4: "send_message ?s1 (str ''again'') =
     (?s1\<lparr>toasts := [(str ''Please wait for the current response'', True)]\<rparr>, str ''again'')"
    unfolding rejected toasts1 by simp
  have 5: "\<exists>s'. deliver ?net 0 ?s1 = (s', None) \<and> \<not> is_llm_running s' \<and> threads s' = []"
    using d cleared by (intro exI [of _ "fst (deliver ?net 0 ?s1)"] conjI) simp_all
  show ?thesis
    using 1 2 3 4 5 by (intro conjI)
qed





section \<open>The matcher on the two patterns\<close>

lemma rx_str_simps:
  "rx_str [] = Eps"
  "rx_str (c # cs) = Seq (Lit (of_char c)) (rx_str cs)"
  by (simp_all add: rx_str_def)

lemma rx_match_str:
  "rx_match fl (rx_str w) s k = (case lit_match fl w s of Some r \<Rightarrow> k r | None \<Rightarrow> None)"
proof (induction w arbitrary: s)
  case Nil
  show ?case by (simp add: rx_str_simps lit_match_def)
next
  case (Cons c cs)
  show ?case
    by (cases s) (simp_all add: rx_str_simps Cons.IH lit_match_def)
qed

lemma rx_match_lazy_dot:
  "rx_match fl (LazyStar Dot) s (lit_match fl w) = after_lit fl w s"
proof (induction s)
  case Nil
  show ?case by (simp split: option.splits)
next
  case (Cons x xs)
  then show ?case by (simp split: option.splits)
qed

lemma rx_match_lazy_lit:
  "rx_match fl (Seq (LazyStar Dot) (rx_str w)) s Some = after_lit fl w s"
proof -
  have "(\<lambda>r. rx_match fl (rx_str w) r Some) = lit_match fl w"
    by (rule ext) (simp add: rx_match_str split: option.splits)
  then have "rx_match fl (Seq (LazyStar Dot) (rx_str w)) s Some =
      rx_match fl (LazyStar Dot) s (lit_match fl w)"
    by (simp only: rx_match.simps(4))
  then show ?thesis
    by (simp only: rx_match_lazy_dot)
qed

lemma think_pattern_match:
  "rx_match think_flags think_pattern s Some = think_match s"
proof -
  have "rx_match think_flags think_pattern s Some =
      rx_match think_flags (rx_str ''<THINK>'') s
        (\<lambda>r. rx_match think_flags (Seq (LazyStar Dot) (rx_str ''</THINK>'')) r Some)"
    by (simp only: think_pattern_def rx_match.simps(4))
  then show ?thesis
    by (simp only: rx_match_str rx_match_lazy_lit think_match_def)
qed

text \<open>What is left over after a match is a proper end piece of the text.\<close>

lemma lits_at_length: "lits_at fl w s \<Longrightarrow> length w \<le> length s"
  by (induction fl w s rule: lits_at.induct) simp_all

lemma lit_match_suffix: "lit_match fl w s = Some r \<Longrightarrow> suffix r s \<and> length r + length w = length s"
  by (auto simp: lit_match_def suffix_drop dest: lits_at_length split: if_splits)

lemma after_lit_suffix:
  "after_lit fl w s = Some r \<Longrightarrow> suffix r s \<and> length r + length w \<le> length s"
proof (induction s)
  case Nil
  then show ?case by (auto dest: lit_match_suffix)
next
  case (Cons x xs)
  show ?case
  proof (cases "lit_match fl w (x # xs)")
    case (Some r')
    with Cons.prems show ?thesis by (auto dest: lit_match_suffix)
  next
    case None
    with Cons.prems have "after_lit fl w xs = Some r"
      by (simp split: if_splits)
    from Cons.IH [OF this] show ?thesis
      by (auto intro: suffix_ConsI)
  qed
qed

lemma think_match_suffix:
  "think_match s = Some r \<Longrightarrow> suffix r s \<and> length r + 15 \<le> length s"
proof -
  assume a: "think_match s = Some r"
  then obtain t where t: "lit_match think_flags ''<THINK>'' s = Some t"
      "after_lit think_flags ''</THINK>'' t = Some r"
    by (auto simp: think_match_def split: option.splits)
  from lit_match_suffix [OF t(1)] after_lit_suffix [OF t(2)]
  show ?thesis
    by (auto intro: suffix_order.trans)
qed

text \<open>The scan of \<open>strip_think\<close>, without the matcher.\<close>

lemma strip_think_unfold:
  "strip_think s =
     (case think_match s of
        Some r \<Rightarrow> strip_think r
      | None \<Rightarrow> (case s of [] \<Rightarrow> [] | x # xs \<Rightarrow> x # strip_think xs))"
proof (cases "think_match s")
  case None
  then show ?thesis
    unfolding strip_think_def
    by (subst re_sub.simps) (simp add: think_pattern_match)
next
  case (Some r)
  then have "length r < length s"
    using think_match_suffix by fastforce
  with Some show ?thesis
    unfolding strip_think_def
    by (subst re_sub.simps) (simp add: think_pattern_match)
qed

lemma strip_think_Nil: "strip_think [] = []"
  by (subst strip_think_unfold) (simp add: think_match_def lit_match_def)

lemma strip_think_skip:
  "think_match (x # xs) = None \<Longrightarrow> strip_think (x # xs) = x # strip_think xs"
  by (subst strip_think_unfold) simp

lemma strip_think_match:
  "think_match s = Some r \<Longrightarrow> strip_think s = strip_think r"
  by (subst strip_think_unfold) simp

section \<open>Properties of the sanitizer\<close>

subsection \<open>Hidden-reasoning blocks\<close>

lemma lits_at_append:
  "length w \<le> length a \<Longrightarrow> lits_at fl w (a @ b) = lits_at fl w a"
  by (induction fl w a rule: lits_at.induct) simp_all

lemma lit_match_exact:
  "lits_at fl w c \<Longrightarrow> length c = length w \<Longrightarrow> lit_match fl w (c @ rest) = Some rest"
  by (simp add: lit_match_def lits_at_append)

lemma strip_think_length: "length (strip_think s) \<le> length s"
proof (induction s rule: length_induct)
  case (1 s)
  show ?case
  proof (cases "think_match s")
    case (Some r)
    then have "length r < length s"
      using think_match_suffix by fastforce
    with 1 have "length (strip_think r) \<le> length r" by blast
    with Some \<open>length r < length s\<close> show ?thesis
      by (simp add: strip_think_match)
  next
    case None
    show ?thesis
    proof (cases s)
      case Nil
      then show ?thesis by (simp add: strip_think_Nil)
    next
      case (Cons x xs)
      with 1 have "length (strip_think xs) \<le> length xs" by simp
      with None Cons show ?thesis
        by (simp add: strip_think_skip)
    qed
  qed
qed

lemma strip_think_no_block: "\<not> think_block s \<Longrightarrow> strip_think s = s"
  by (induction s) (simp_all add: strip_think_Nil strip_think_skip)

lemma strip_think_block_shorter: "think_block s \<Longrightarrow> length (strip_think s) < length s"
proof (induction s)
  case Nil
  then show ?case by simp
next
  case (Cons x xs)
  show ?case
  proof (cases "think_match (x # xs)")
    case (Some r)
    then have "length r < length (x # xs)"
      using think_match_suffix by fastforce
    moreover have "length (strip_think r) \<le> length r"
      by (rule strip_think_length)
    ultimately show ?thesis
      using Some by (simp add: strip_think_match)
  next
    case None
    with Cons show ?thesis
      by (simp add: strip_think_skip)
  qed
qed

text \<open>Where no block starts inside \<open>pre\<close>, the scan copies \<open>pre\<close>.\<close>

lemma strip_think_copy:
  "(\<forall>i < length pre. think_match (drop i (pre @ t)) = None) \<Longrightarrow>
   strip_think (pre @ t) = pre @ strip_think t"
proof (induction pre)
  case Nil
  show ?case by simp
next
  case (Cons x pre)
  from Cons.prems have "think_match (x # pre @ t) = None"
    by (auto dest: spec [of _ 0])
  moreover from Cons.prems have "\<forall>i < length pre. think_match (drop i (pre @ t)) = None"
    by (auto dest: spec [of _ "Suc i" for i])
  ultimately show ?case
    using Cons.IH by (simp add: strip_think_skip)
qed

text \<open>The first closing delimiter behind \<open>body\<close> ends the lazy \<^verbatim>\<open>.*?\<close>.\<close>

lemma after_lit_first:
  assumes "\<forall>i < length body. \<not> lits_at fl w (drop i (body @ c))"
    and "length c = length w" and "lits_at fl w c" and "dotall fl"
  shows "after_lit fl w (body @ c @ rest) = Some rest"
  using assms(1)
proof (induction body)
  case Nil
  show ?case
  proof (cases "c @ rest")
    case Nil
    with assms(2,3) show ?thesis
      by (simp add: lit_match_def)
  next
    case (Cons x xs)
    have "lit_match fl w (c @ rest) = Some rest"
      using assms(2,3) by (rule lit_match_exact [rotated])
    with Cons show ?thesis by simp
  qed
next
  case (Cons x body)
  from Cons.prems have "\<not> lits_at fl w (x # body @ c)"
    by (auto dest: spec [of _ 0])
  moreover have "length w \<le> length (x # body @ c)"
    using assms(2) by simp
  ultimately have "\<not> lits_at fl w ((x # body @ c) @ rest)"
    using lits_at_append [of w "x # body @ c" fl rest] by blast
  then have "lit_match fl w (x # body @ c @ rest) = None"
    by (simp add: lit_match_def)
  moreover from Cons.prems have "\<forall>i < length body. \<not> lits_at fl w (drop i (body @ c))"
    by (auto dest: spec [of _ "Suc i" for i])
  ultimately show ?case
    using Cons.IH assms(4) by (simp add: dot_matches_def)
qed

lemma strip_think_removes:
  assumes "\<forall>i < length pre. \<not> lits_at think_flags ''<THINK>'' (drop i (pre @ opn))"
    and "length opn = 7" and "lits_at think_flags ''<THINK>'' opn"
    and "\<forall>i < length body. \<not> lits_at think_flags ''</THINK>'' (drop i (body @ cls))"
    and "length cls = 8" and "lits_at think_flags ''</THINK>'' cls"
  shows "strip_think (pre @ opn @ body @ cls @ rest) = pre @ strip_think rest"
proof -
  let ?t = "opn @ body @ cls @ rest"
  have "think_match (drop i (pre @ ?t)) = None" if "i < length pre" for i
  proof -
    have "\<not> lits_at think_flags ''<THINK>'' (drop i (pre @ opn))"
      using assms(1) that by blast
    moreover have "length ''<THINK>'' \<le> length (drop i (pre @ opn))"
      using assms(2) that by simp
    moreover have "drop i (pre @ ?t) = drop i (pre @ opn) @ body @ cls @ rest"
      using that by simp
    ultimately have "\<not> lits_at think_flags ''<THINK>'' (drop i (pre @ ?t))"
      using lits_at_append [of "''<THINK>''" "drop i (pre @ opn)" think_flags "body @ cls @ rest"]
      by metis
    then show ?thesis
      by (simp add: think_match_def lit_match_def)
  qed
  then have "strip_think (pre @ ?t) = pre @ strip_think ?t"
    by (intro strip_think_copy) blast
  moreover have "lit_match think_flags ''<THINK>'' ?t = Some (body @ cls @ rest)"
    using assms(2,3) by (intro lit_match_exact) simp_all
  moreover have "after_lit think_flags ''</THINK>'' (body @ cls @ rest) = Some rest"
    using assms(4,5,6) by (intro after_lit_first) (simp_all add: think_flags_def)
  ultimately show ?thesis
    by (simp add: think_match_def strip_think_match)
qed

text \<open>\<open>think_block\<close> says that the text can be cut into the five pieces of a block.\<close>

lemma lit_match_split:
  assumes "lit_match fl w s = Some r"
  shows "\<exists>c. s = c @ r \<and> length c = length w \<and> lits_at fl w c"
proof -
  from assms have l: "lits_at fl w s" and r: "r = drop (length w) s"
    by (auto simp: lit_match_def split: if_splits)
  have len: "length w \<le> length s"
    using l by (rule lits_at_length)
  have "lits_at fl w (take (length w) s @ drop (length w) s) = lits_at fl w (take (length w) s)"
    using len by (intro lits_at_append) simp
  with l have "lits_at fl w (take (length w) s)" by simp
  moreover have "length (take (length w) s) = length w"
    using len by simp
  moreover have "s = take (length w) s @ r"
    using r by simp
  ultimately show ?thesis by blast
qed

lemma after_lit_split:
  "after_lit fl w t = Some r \<Longrightarrow>
   \<exists>body c. t = body @ c @ r \<and> length c = length w \<and> lits_at fl w c"
proof (induction t)
  case Nil
  then have "lit_match fl w [] = Some r" by simp
  from lit_match_split [OF this] show ?case by auto
next
  case (Cons x xs)
  show ?case
  proof (cases "lit_match fl w (x # xs)")
    case (Some r')
    with Cons.prems have "lit_match fl w (x # xs) = Some r" by simp
    from lit_match_split [OF this] obtain c where
      "x # xs = [] @ c @ r" "length c = length w" "lits_at fl w c" by auto
    then show ?thesis by blast
  next
    case None
    with Cons.prems have "after_lit fl w xs = Some r"
      by (simp split: if_splits)
    from Cons.IH [OF this] obtain body c where
      "xs = body @ c @ r" "length c = length w" "lits_at fl w c" by blast
    then have "x # xs = (x # body) @ c @ r" by simp
    with \<open>length c = length w\<close> \<open>lits_at fl w c\<close> show ?thesis by blast
  qed
qed

lemma after_lit_exists:
  assumes "dotall fl" and "lits_at fl w c"
  shows "after_lit fl w (body @ c @ rest) \<noteq> None"
proof (induction body)
  case Nil
  have "lit_match fl w (c @ rest) \<noteq> None"
    using assms(2) lits_at_append [of w c fl rest] lits_at_length [OF assms(2)]
    by (simp add: lit_match_def)
  then show ?case
    by (cases "c @ rest") auto
next
  case (Cons x body)
  then show ?case
    using assms(1) by (auto simp: dot_matches_def split: option.splits)
qed

lemma think_block_iff:
  "think_block s =
     (\<exists>pre opn body cls rest. s = pre @ opn @ body @ cls @ rest \<and>
        length opn = 7 \<and> lits_at think_flags ''<THINK>'' opn \<and>
        length cls = 8 \<and> lits_at think_flags ''</THINK>'' cls)"
proof
  assume "think_block s"
  then show "\<exists>pre opn body cls rest. s = pre @ opn @ body @ cls @ rest \<and>
        length opn = 7 \<and> lits_at think_flags ''<THINK>'' opn \<and>
        length cls = 8 \<and> lits_at think_flags ''</THINK>'' cls"
  proof (induction s)
    case Nil
    then show ?case by simp
  next
    case (Cons x xs)
    show ?case
    proof (cases "think_match (x # xs)")
      case None
      with Cons obtain pre opn body cls rest where
        "xs = pre @ opn @ body @ cls @ rest" "length opn = 7"
        "lits_at think_flags ''<THINK>'' opn" "length cls = 8"
        "lits_at think_flags ''</THINK>'' cls"
        by auto
      then have "x # xs = (x # pre) @ opn @ body @ cls @ rest" by simp
      with \<open>length opn = 7\<close> \<open>lits_at think_flags ''<THINK>'' opn\<close> \<open>length cls = 8\<close>
        \<open>lits_at think_flags ''</THINK>'' cls\<close>
      show ?thesis by blast
    next
      case (Some r)
      then obtain t where t: "lit_match think_flags ''<THINK>'' (x # xs) = Some t"
          "after_lit think_flags ''</THINK>'' t = Some r"
        by (auto simp: think_match_def split: option.splits)
      from lit_match_split [OF t(1)] obtain opn where
        o: "x # xs = opn @ t" "length opn = 7" "lits_at think_flags ''<THINK>'' opn"
        by auto
      from after_lit_split [OF t(2)] obtain body cls where
        b: "t = body @ cls @ r" "length cls = 8" "lits_at think_flags ''</THINK>'' cls"
        by auto
      have "x # xs = [] @ opn @ body @ cls @ r"
        using o(1) b(1) by simp
      then show ?thesis
        using o(2,3) b(2,3) by blast
    qed
  qed
next
  assume "\<exists>pre opn body cls rest. s = pre @ opn @ body @ cls @ rest \<and>
        length opn = 7 \<and> lits_at think_flags ''<THINK>'' opn \<and>
        length cls = 8 \<and> lits_at think_flags ''</THINK>'' cls"
  then obtain pre opn body cls rest where s: "s = pre @ opn @ body @ cls @ rest"
    and o: "length opn = 7" "lits_at think_flags ''<THINK>'' opn"
    and c: "lits_at think_flags ''</THINK>'' cls"
    by blast
  have "lit_match think_flags ''<THINK>'' (opn @ body @ cls @ rest) = Some (body @ cls @ rest)"
    using o by (intro lit_match_exact) simp_all
  moreover have "after_lit think_flags ''</THINK>'' (body @ cls @ rest) \<noteq> None"
    using c by (intro after_lit_exists) (simp_all add: think_flags_def)
  ultimately have m: "think_match (opn @ body @ cls @ rest) \<noteq> None"
    by (simp add: think_match_def)
  have ne: "opn @ body @ cls @ rest \<noteq> []"
    using o(1) by auto
  have "think_block (pre @ t)" if "think_match t \<noteq> None" "t \<noteq> []" for t
    using that by (induction pre) (cases t; simp)+
  from this [OF m ne] show "think_block s"
    by (simp add: s)
qed

text \<open>
  C7, as the specification states it, does not hold in its last part: the sanitizer is not
  idempotent. Removing the inner block of \<^verbatim>\<open><THINK<THINK>x</THINK>>y</THINK>\<close> joins the
  text around it into \<^verbatim>\<open><THINK>y</THINK>\<close>, which a second pass removes.
\<close>

theorem strip_think_idempotence_counterexample:
  "strip_think (str ''<THINK<THINK>x</THINK>>y</THINK>'') = str ''<THINK>y</THINK>'' \<and>
   strip_think (strip_think (str ''<THINK<THINK>x</THINK>>y</THINK>'')) = [] \<and>
   strip_think (strip_think (str ''<THINK<THINK>x</THINK>>y</THINK>'')) \<noteq>
     strip_think (str ''<THINK<THINK>x</THINK>>y</THINK>'')"
proof -
  have 1: "strip_think (str ''<THINK<THINK>x</THINK>>y</THINK>'') = str ''<THINK>y</THINK>''"
    by code_simp
  have 2: "strip_think (str ''<THINK>y</THINK>'') = []"
    by code_simp
  have 3: "str ''<THINK>y</THINK>'' \<noteq> []"
    by (simp add: str_def)
  show ?thesis
    unfolding 1 2 using 3 by simp
qed

text \<open>
  C7, amended. The sanitizer scans the text from the left. Where an opening delimiter
  (\<^verbatim>\<open><THINK>\<close> in any letter case) has a closing delimiter behind it, it removes both
  and everything between them, up to the first closing delimiter, across line breaks;
  the text in front of the first such block is kept and the scan goes on behind the
  block. A text without a block comes back unchanged. A second pass changes nothing
  exactly when the result of the first pass holds no block.
\<close>

theorem strip_think_sanitizer:
  "((\<forall>i < length pre. \<not> lits_at think_flags ''<THINK>'' (drop i (pre @ opn))) \<and>
    length opn = 7 \<and> lits_at think_flags ''<THINK>'' opn \<and>
    (\<forall>i < length body. \<not> lits_at think_flags ''</THINK>'' (drop i (body @ cls))) \<and>
    length cls = 8 \<and> lits_at think_flags ''</THINK>'' cls
    \<longrightarrow> strip_think (pre @ opn @ body @ cls @ rest) = pre @ strip_think rest) \<and>
   (\<not> think_block s \<longrightarrow> strip_think s = s) \<and>
   ((strip_think (strip_think s) = strip_think s) = (\<not> think_block (strip_think s)))"
proof (intro conjI impI)
  assume "(\<forall>i < length pre. \<not> lits_at think_flags ''<THINK>'' (drop i (pre @ opn))) \<and>
    length opn = 7 \<and> lits_at think_flags ''<THINK>'' opn \<and>
    (\<forall>i < length body. \<not> lits_at think_flags ''</THINK>'' (drop i (body @ cls))) \<and>
    length cls = 8 \<and> lits_at think_flags ''</THINK>'' cls"
  then show "strip_think (pre @ opn @ body @ cls @ rest) = pre @ strip_think rest"
    by (intro strip_think_removes) blast+
next
  assume "\<not> think_block s"
  then show "strip_think s = s"
    by (rule strip_think_no_block)
next
  show "(strip_think (strip_think s) = strip_think s) = (\<not> think_block (strip_think s))"
    using strip_think_no_block [of "strip_think s"]
      strip_think_block_shorter [of "strip_think s"]
    by auto
qed

text \<open>The example of the specification and a text without a block.\<close>

theorem strip_think_sanitizer_witness:
  "strip_think (str ''A<THINK>secret</THINK>B'') = str ''AB'' \<and>
   strip_think (str ''No <think> here'') = str ''No <think> here'' \<and>
   strip_think (strip_think (str ''A<THINK>secret</THINK>B'')) =
     strip_think (str ''A<THINK>secret</THINK>B'')"
proof -
  note removal = strip_think_sanitizer
    [of "str ''A''" "str ''<THINK>''" "str ''secret''" "str ''</THINK>''" "str ''B''" "str ''B''",
     THEN conjunct1, rule_format]
  note keep_B = strip_think_sanitizer
    [of "[]" "[]" "[]" "[]" "[]" "str ''B''", THEN conjunct2, THEN conjunct1, rule_format]
  note keep = strip_think_sanitizer
    [of "[]" "[]" "[]" "[]" "[]" "str ''No <think> here''",
     THEN conjunct2, THEN conjunct1, rule_format]
  note twice = strip_think_sanitizer
    [of "[]" "[]" "[]" "[]" "[]" "str ''A<THINK>secret</THINK>B''",
     THEN conjunct2, THEN conjunct2]
  have hyp: "(\<forall>i < length (str ''A'').
        \<not> lits_at think_flags ''<THINK>'' (drop i (str ''A'' @ str ''<THINK>''))) \<and>
    length (str ''<THINK>'') = 7 \<and> lits_at think_flags ''<THINK>'' (str ''<THINK>'') \<and>
    (\<forall>i < length (str ''secret'').
        \<not> lits_at think_flags ''</THINK>'' (drop i (str ''secret'' @ str ''</THINK>''))) \<and>
    length (str ''</THINK>'') = 8 \<and> lits_at think_flags ''</THINK>'' (str ''</THINK>'')"
    by (simp add: str_def All_less_Suc lit_matches_def think_flags_def case_variants_def)
  have nb: "\<not> think_block (str ''B'')"
    by code_simp
  have nb': "\<not> think_block (str ''No <think> here'')"
    by code_simp
  have split: "str ''A<THINK>secret</THINK>B'' =
      str ''A'' @ str ''<THINK>'' @ str ''secret'' @ str ''</THINK>'' @ str ''B''"
    "str ''AB'' = str ''A'' @ str ''B''"
    by (simp_all add: str_def)
  have 1: "strip_think (str ''A<THINK>secret</THINK>B'') = str ''AB''"
    unfolding split using removal [OF hyp] keep_B [OF nb] by simp
  have nb'': "\<not> think_block (strip_think (str ''A<THINK>secret</THINK>B''))"
    unfolding 1 by code_simp
  have 2: "strip_think (str ''No <think> here'') = str ''No <think> here''"
    using nb' by (rule keep)
  have 3: "strip_think (strip_think (str ''A<THINK>secret</THINK>B'')) =
     strip_think (str ''A<THINK>secret</THINK>B'')"
    using twice nb'' by blast
  show ?thesis
    using 1 2 3 by (intro conjI)
qed

text \<open>Letter case, line breaks inside the block, and the Kelvin sign for \<open>K\<close>.\<close>

lemma strip_think_mixed_case:
  "strip_think (str ''x<Think>a'' @ [10] @ str ''b</thin'' @ [8490] @ str ''>y'') = str ''xy''"
  by code_simp

subsection \<open>Markup tags\<close>

text \<open>Alternatives that all lead to the same result \<open>K\<close> behave like one test.\<close>

lemma rx_match_alts:
  assumes "\<forall>w \<in> set (w0 # ws). lits_at fl w s \<longrightarrow> k (drop (length w) s) = K"
  shows "rx_match fl (rx_alts (rx_str w0) (map rx_str ws)) s k =
           (if \<exists>w \<in> set (w0 # ws). lits_at fl w s then K else None)"
  using assms
proof (induction ws arbitrary: w0)
  case Nil
  then show ?case
    by (simp add: rx_match_str lit_match_def)
next
  case (Cons w1 ws)
  from Cons.prems have "\<forall>w \<in> set (w1 # ws). lits_at fl w s \<longrightarrow> k (drop (length w) s) = K"
    by simp
  from Cons.IH [OF this] Cons.prems show ?case
    by (cases K) (auto simp: rx_match_str lit_match_def)
qed

lemma lits_at_no_flags:
  "lits_at no_flags w s \<Longrightarrow> s = str w @ drop (length w) s"
  by (induction no_flags w s rule: lits_at.induct)
     (simp_all add: str_def lit_matches_def no_flags_def)

lemma lits_at_str: "lits_at no_flags w (str w @ t)"
  by (induction w) (simp_all add: str_def lit_matches_def no_flags_def)

lemma after_bracket_skip:
  "93 \<notin> set a \<Longrightarrow> 10 \<notin> set a \<Longrightarrow>
   after_lit no_flags '']'' (a @ t) = after_lit no_flags '']'' t"
  by (induction a)
     (auto simp: lit_match_def lit_matches_def no_flags_def dot_matches_def)

lemma tag_names_plain:
  "w \<in> set tag_names \<Longrightarrow> 93 \<notin> set (str w) \<and> 10 \<notin> set (str w)"
  by (auto simp: tag_names_def str_def)

lemma tag_names_no_slash:
  "w \<in> set tag_names \<Longrightarrow> \<not> lits_at no_flags ''/'' (str w @ t)"
  by (auto simp: tag_names_def str_def lit_matches_def no_flags_def)

lemma slash_no_tag:
  "lits_at no_flags ''/'' r \<Longrightarrow> w \<in> set tag_names \<Longrightarrow> \<not> lits_at no_flags w r"
  by (cases r) (auto simp: tag_names_def lit_matches_def no_flags_def)

lemma tag_alternatives:
  "rx_match no_flags (rx_alts (rx_str (hd tag_names)) (map rx_str (tl tag_names))) s
     (after_lit no_flags '']'') =
   (if \<exists>w \<in> set tag_names. lits_at no_flags w s then after_lit no_flags '']'' s else None)"
proof -
  have "after_lit no_flags '']'' (drop (length w) s) = after_lit no_flags '']'' s"
    if "w \<in> set tag_names" "lits_at no_flags w s" for w
    using after_bracket_skip [of "str w" "drop (length w) s"] tag_names_plain [OF that(1)]
      lits_at_no_flags [OF that(2)]
    by simp
  moreover have "tag_names = hd tag_names # tl tag_names"
    by (simp add: tag_names_def)
  ultimately have "\<forall>w \<in> set (hd tag_names # tl tag_names).
      lits_at no_flags w s \<longrightarrow>
        after_lit no_flags '']'' (drop (length w) s) = after_lit no_flags '']'' s"
    by metis
  from rx_match_alts [OF this] \<open>tag_names = hd tag_names # tl tag_names\<close>
  show ?thesis by metis
qed

lemma markup_pattern_match:
  "rx_match no_flags markup_pattern s Some = tag_match s"
proof -
  let ?alts = "rx_alts (rx_str (hd tag_names)) (map rx_str (tl tag_names))"
  let ?A = "\<lambda>r. if \<exists>w \<in> set tag_names. lits_at no_flags w r
               then after_lit no_flags '']'' r else None"
  have lazy: "(\<lambda>t. rx_match no_flags (Seq (LazyStar Dot) (rx_str '']'')) t Some) =
      after_lit no_flags '']''"
    by (rule ext) (rule rx_match_lazy_lit)
  have alts: "(\<lambda>r. rx_match no_flags ?alts r (after_lit no_flags '']'')) = ?A"
    by (rule ext) (rule tag_alternatives)
  have opt: "rx_match no_flags (Opt (rx_str ''/'')) r ?A =
      ?A (case lit_match no_flags ''/'' r of Some r1 \<Rightarrow> r1 | None \<Rightarrow> r)" for r
  proof (cases "lit_match no_flags ''/'' r")
    case None
    then show ?thesis
      by (simp add: rx_match_str)
  next
    case (Some r1)
    then have "lits_at no_flags ''/'' r"
      by (simp add: lit_match_def split: if_splits)
    then have "\<not> (\<exists>w \<in> set tag_names. lits_at no_flags w r)"
      using slash_no_tag by blast
    with Some show ?thesis
      by (simp add: rx_match_str split: option.splits)
  qed
  have "rx_match no_flags markup_pattern s Some =
      rx_match no_flags (rx_str ''['') s
        (\<lambda>r. rx_match no_flags (Opt (rx_str ''/'')) r
           (\<lambda>r'. rx_match no_flags ?alts r'
              (\<lambda>t. rx_match no_flags (Seq (LazyStar Dot) (rx_str '']'')) t Some)))"
    by (simp only: markup_pattern_def rx_match.simps(4))
  also have "\<dots> = rx_match no_flags (rx_str ''['') s
        (\<lambda>r. ?A (case lit_match no_flags ''/'' r of Some r1 \<Rightarrow> r1 | None \<Rightarrow> r))"
    by (simp only: lazy alts opt)
  also have "\<dots> = tag_match s"
    by (simp add: rx_match_str tag_match_def Let_def split: option.splits)
  finally show ?thesis .
qed

lemma tag_match_suffix:
  assumes "tag_match s = Some r"
  shows "suffix r s \<and> length r < length s"
proof -
  from assms obtain t where t: "lit_match no_flags ''['' s = Some t"
    by (auto simp: tag_match_def split: option.splits)
  let ?t' = "case lit_match no_flags ''/'' t of Some r1 \<Rightarrow> r1 | None \<Rightarrow> t"
  from assms t have a: "after_lit no_flags '']'' ?t' = Some r"
    by (auto simp: tag_match_def Let_def split: if_splits)
  have "suffix ?t' t"
    by (auto split: option.splits dest: lit_match_suffix)
  moreover from lit_match_suffix [OF t] have "suffix t s" "length t < length s"
    by auto
  moreover from after_lit_suffix [OF a] have "suffix r ?t'"
    by simp
  ultimately show ?thesis
    by (meson suffix_order.trans suffix_length_le le_less_trans)
qed

text \<open>The scan of \<open>label_copy\<close>, without the matcher.\<close>

lemma label_copy_unfold:
  "label_copy s =
     (case tag_match s of
        Some r \<Rightarrow> label_copy r
      | None \<Rightarrow> (case s of [] \<Rightarrow> [] | x # xs \<Rightarrow> x # label_copy xs))"
proof (cases "tag_match s")
  case None
  then show ?thesis
    unfolding label_copy_def
    by (subst re_sub.simps) (simp add: markup_pattern_match)
next
  case (Some r)
  then have "length r < length s"
    using tag_match_suffix by blast
  with Some show ?thesis
    unfolding label_copy_def
    by (subst re_sub.simps) (simp add: markup_pattern_match)
qed

lemma label_copy_subseq: "subseq (label_copy s) s"
proof (induction s rule: length_induct)
  case (1 s)
  show ?case
  proof (cases "tag_match s")
    case (Some r)
    from tag_match_suffix [OF this] have "suffix r s" "length r < length s"
      by auto
    with 1 have "subseq (label_copy r) r" by blast
    moreover have "subseq r s"
      using \<open>suffix r s\<close> by (auto simp: suffix_def)
    ultimately have "subseq (label_copy r) s"
      by (rule subseq_order.trans)
    with Some show ?thesis
      by (subst label_copy_unfold) simp
  next
    case None
    show ?thesis
    proof (cases s)
      case Nil
      with None show ?thesis
        by (subst label_copy_unfold) simp
    next
      case (Cons x xs)
      with 1 have "subseq (label_copy xs) xs" by simp
      with None Cons show ?thesis
        by (subst label_copy_unfold) simp
    qed
  qed
qed

lemma label_copy_plain:
  "91 \<notin> set pre \<Longrightarrow> label_copy (pre @ s) = pre @ label_copy s"
proof (induction pre)
  case Nil
  show ?case by simp
next
  case (Cons x pre)
  then have "tag_match (x # pre @ s) = None"
    by (simp add: tag_match_def lit_match_def lit_matches_def no_flags_def)
  with Cons show ?case
    by (subst label_copy_unfold) simp
qed

lemma tag_match_tag:
  assumes "w \<in> set tag_names" and "slash = [] \<or> slash = str ''/''"
    and "93 \<notin> set attr" and "10 \<notin> set attr"
  shows "tag_match (str ''['' @ slash @ str w @ attr @ str '']'' @ rest) = Some rest"
proof -
  let ?r' = "str w @ attr @ str '']'' @ rest"
  have open_bracket: "lit_match no_flags ''['' (str ''['' @ slash @ ?r') = Some (slash @ ?r')"
    by (simp add: lit_match_def str_def lit_matches_def no_flags_def)
  have slash: "(case lit_match no_flags ''/'' (slash @ ?r') of Some r1 \<Rightarrow> r1 | None \<Rightarrow> slash @ ?r')
      = ?r'"
  proof (cases "slash = []")
    case True
    then show ?thesis
      using tag_names_no_slash [OF assms(1), of "attr @ str '']'' @ rest"]
      by (simp add: lit_match_def)
  next
    case False
    with assms(2) have "slash = str ''/''" by simp
    then show ?thesis
      by (simp add: lit_match_def str_def lit_matches_def no_flags_def)
  qed
  have tag: "\<exists>w \<in> set tag_names. lits_at no_flags w ?r'"
    using assms(1) lits_at_str by blast
  have "after_lit no_flags '']'' ((str w @ attr) @ str '']'' @ rest) =
      after_lit no_flags '']'' (str '']'' @ rest)"
    using assms(3,4) tag_names_plain [OF assms(1)] by (intro after_bracket_skip) auto
  also have "\<dots> = Some rest"
    by (simp add: str_def lit_match_def lit_matches_def no_flags_def)
  finally have close: "after_lit no_flags '']'' ?r' = Some rest"
    by simp
  show ?thesis
    unfolding tag_match_def open_bracket option.case Let_def slash
    using tag close by simp
qed

text \<open>
  C10. The code breaks the clause of the claim on the enclosed text. The pattern asks
  for no delimiter behind the tag name, so a bracket group that merely starts like a tag
  is removed as well: \<^verbatim>\<open>[bold]\<close> is none of the listed tags, but it starts like the tag
  \<^verbatim>\<open>b\<close>, and \<open>label_copy\<close> removes it from the text between \<^verbatim>\<open>[b]\<close> and \<^verbatim>\<open>[/b]\<close>,
  where the claim leaves \<^verbatim>\<open>a[bold]c\<close>.
\<close>

theorem label_copy_bold_failing_input:
  "label_copy (str ''[b]a[bold]c[/b]'') = str ''ac'' \<and>
   label_copy (str ''[b]a[bold]c[/b]'') \<noteq> str ''a[bold]c''"
proof -
  have 1: "label_copy (str ''[b]a[bold]c[/b]'') = str ''ac''"
    by code_simp
  show ?thesis
    unfolding 1 by (simp add: str_def)
qed

text \<open>
  Bracketed text that does not start like a tag stays, also in front of a tag; and the
  example of the specification gives \<open>Hello World\<close>.
\<close>

lemma label_copy_keeps_other_brackets:
  "label_copy (str ''[1] [b]x[/b]'') = str ''[1] x''"
  by code_simp

lemma label_copy_example:
  "label_copy (str ''[b]Hello[/b] [color=#fff]World[/color]'') = str ''Hello World''"
  by code_simp

text \<open>
  Two laws of \<open>label_copy\<close>, next to \<open>label_copy_unfold\<close>, which determines it: a listed
  tag at the front is removed, with whatever follows the tag name up to the closing
  bracket when that holds no line break, and a front piece without an opening bracket
  is copied. The result is always the input with characters deleted.
\<close>

lemma label_copy_laws:
  "(w \<in> set tag_names \<and> (slash = [] \<or> slash = str ''/'') \<and>
    of_char (CHR '']'') \<notin> set attr \<and> of_char (CHR 0x0A) \<notin> set attr
    \<longrightarrow> label_copy (str ''['' @ slash @ str w @ attr @ str '']'' @ rest) = label_copy rest) \<and>
   (of_char (CHR ''['') \<notin> set pre \<longrightarrow> label_copy (pre @ s) = pre @ label_copy s) \<and>
   subseq (label_copy s) s"
proof (intro conjI impI)
  assume a: "w \<in> set tag_names \<and> (slash = [] \<or> slash = str ''/'') \<and>
    of_char (CHR '']'') \<notin> set attr \<and> of_char (CHR 0x0A) \<notin> set attr"
  then have "tag_match (str ''['' @ slash @ str w @ attr @ str '']'' @ rest) = Some rest"
    by (intro tag_match_tag) simp_all
  then show "label_copy (str ''['' @ slash @ str w @ attr @ str '']'' @ rest) = label_copy rest"
    by (subst label_copy_unfold) simp
next
  assume "of_char (CHR ''['') \<notin> set pre"
  then show "label_copy (pre @ s) = pre @ label_copy s"
    by (intro label_copy_plain) simp
next
  show "subseq (label_copy s) s"
    by (rule label_copy_subseq)
qed

end
